theory Spec2Isabelle
  imports Main "HOL-Library.Sublist" "HOL-Library.AList"
begin

section \<open>Strings of the content validator\<close>

text \<open>
  The script \<^verbatim>\<open>validate.js\<close> works on JavaScript strings. They are modelled as
  \<^typ>\<open>string\<close>: a list of code units, here the code units below 256. The helpers of this
  section are the string methods the script calls, each with the behaviour the language
  gives it.
\<close>

definition nl :: char where
  "nl = CHR 0x0A"

definition is_space :: "char \<Rightarrow> bool" where
  \<comment> \<open>the white space and line terminators that \<^verbatim>\<open>String.prototype.trim\<close> removes\<close>
  "is_space c = (c \<in> set [CHR 0x09, CHR 0x0A, CHR 0x0B, CHR 0x0C, CHR 0x0D, CHR 0x20, CHR 0xA0])"

definition trim :: "string \<Rightarrow> string" where
  \<comment> \<open>\<^verbatim>\<open>s.trim()\<close>\<close>
  "trim s = rev (dropWhile is_space (rev (dropWhile is_space s)))"

fun indexOf :: "char \<Rightarrow> string \<Rightarrow> nat option" where
  \<comment> \<open>\<^verbatim>\<open>s.indexOf(c)\<close>; \<open>None\<close> stands for the result \<^verbatim>\<open>-1\<close>\<close>
  "indexOf c [] = None"
| "indexOf c (x # xs) = (if x = c then Some 0 else map_option Suc (indexOf c xs))"

fun split_on :: "char \<Rightarrow> string \<Rightarrow> string list" where
  \<comment> \<open>\<^verbatim>\<open>s.split(c)\<close> for a separator of one character\<close>
  "split_on c [] = [[]]"
| "split_on c (x # xs) =
     (if x = c then [] # split_on c xs
      else (case split_on c xs of
              [] \<Rightarrow> [[x]]
            | p # ps \<Rightarrow> (x # p) # ps))"

definition is_quote :: "char \<Rightarrow> bool" where
  \<comment> \<open>the character class \<^verbatim>\<open>["']\<close>\<close>
  "is_quote c = (c = CHR 0x22 \<or> c = CHR 0x27)"

fun replace_quotes :: "bool \<Rightarrow> string \<Rightarrow> string" where
  \<comment> \<open>\<^verbatim>\<open>s.replace(/^["']|["']$/g, '')\<close>: the scan of a global replace. At each position
      the pattern matches one quote character that stands at the start of the string
      (first alternative) or at its end (second alternative); a match is removed, any
      other character is kept. The flag says whether the scan is at position 0.\<close>
  "replace_quotes at_start [] = []"
| "replace_quotes at_start (c # cs) =
     (if is_quote c \<and> (at_start \<or> cs = []) then replace_quotes False cs
      else c # replace_quotes False cs)"

definition strip_quotes :: "string \<Rightarrow> string" where
  "strip_quotes s = replace_quotes True s"

definition slice_inner :: "string \<Rightarrow> string" where
  \<comment> \<open>\<^verbatim>\<open>s.slice(1, -1)\<close>: from index 1 up to, not including, index \<open>length s - 1\<close>\<close>
  "slice_inner s = take (length s - 2) (drop 1 s)"

fun join_with :: "string \<Rightarrow> string list \<Rightarrow> string" where
  \<comment> \<open>\<^verbatim>\<open>xs.join(sep)\<close> on an array of strings\<close>
  "join_with sep [] = []"
| "join_with sep [x] = x"
| "join_with sep (x # y # ys) = x @ sep @ join_with sep (y # ys)"

definition digit_char :: "nat \<Rightarrow> char" where
  "digit_char d = char_of (48 + d)"

function decimal :: "nat \<Rightarrow> string" where
  \<comment> \<open>a length as a template literal prints it\<close>
  "decimal n = (if n < 10 then [digit_char n] else decimal (n div 10) @ [digit_char (n mod 10)])"
  by pat_completeness auto
termination
  by (relation "measure id") auto

declare decimal.simps [simp del]

section \<open>The frontmatter parser\<close>

text \<open>
  A field value is a string or an array of strings. The frontmatter object is the list of
  its own properties in insertion order; assigning to a name that is already there
  replaces the value in place.
\<close>

datatype jsvalue = Str string | Arr "string list"

type_synonym frontmatter = "(string \<times> jsvalue) list"

definition delim_open :: string where
  "delim_open = ''---'' @ [nl]"

definition delim_close :: string where
  "delim_close = nl # ''---'' @ [nl]"

fun find_close :: "string \<Rightarrow> (string \<times> string) option" where
  \<comment> \<open>the lazy part of the pattern: extend the first group one character at a time until
      \<^verbatim>\<open>\n---\n\<close> follows; the second group takes the rest\<close>
  "find_close [] = None"
| "find_close (c # cs) =
     (if prefix delim_close (c # cs) then Some ([], drop (length delim_close) (c # cs))
      else map_option (\<lambda>(h, b). (c # h, b)) (find_close cs))"

definition match_frontmatter :: "string \<Rightarrow> (string \<times> string) option" where
  \<comment> \<open>\<^verbatim>\<open>content.match(/^---\n([\s\S]+?)\n---\n([\s\S]*)$/)\<close>: the two groups, or \<open>None\<close>
      when there is no match. The first group has at least one character.\<close>
  "match_frontmatter content =
     (if prefix delim_open content then
        (case drop (length delim_open) content of
           [] \<Rightarrow> None
         | c # cs \<Rightarrow> map_option (\<lambda>(h, b). (c # h, b)) (find_close cs))
      else None)"

definition field_value :: "string \<Rightarrow> jsvalue" where
  \<comment> \<open>lines 47 to 52: from the text after the colon to the stored value\<close>
  "field_value rest =
     (let v = strip_quotes (trim rest) in
      if prefix ''['' v \<and> suffix '']'' v
      then Arr (map (\<lambda>e. strip_quotes (trim e)) (split_on CHR '','' (slice_inner v)))
      else Str v)"

definition assign :: "frontmatter \<Rightarrow> string \<Rightarrow> jsvalue \<Rightarrow> frontmatter" where
  \<comment> \<open>\<^verbatim>\<open>frontmatter[key] = value\<close> on an object created by \<^verbatim>\<open>{}\<close>. Every name becomes
      an own property but \<^verbatim>\<open>__proto__\<close>: that name is an accessor inherited from
      \<^verbatim>\<open>Object.prototype\<close>, and assigning to it calls the setter, which stores no own
      property (it ignores a string and makes an array the prototype of the object).\<close>
  "assign fm key v = (if key = ''__proto__'' then fm else AList.update key v fm)"

definition parse_line :: "frontmatter \<Rightarrow> string \<Rightarrow> frontmatter" where
  \<comment> \<open>the body of the \<^verbatim>\<open>forEach\<close> of lines 43 to 56\<close>
  "parse_line fm line =
     (case indexOf CHR '':'' line of
        None \<Rightarrow> fm
      | Some colonIndex \<Rightarrow>
          assign fm (trim (take colonIndex line)) (field_value (drop (colonIndex + 1) line)))"

definition parse_header :: "string \<Rightarrow> frontmatter" where
  "parse_header header = foldl parse_line [] (split_on nl header)"

definition parseFrontmatter :: "string \<Rightarrow> frontmatter option \<times> string" where
  \<comment> \<open>\<^verbatim>\<open>parseFrontmatter\<close>, applied to the text of the file\<close>
  "parseFrontmatter content =
     (case match_frontmatter content of
        None \<Rightarrow> (None, content)
      | Some (header, body) \<Rightarrow> (Some (parse_header header), body))"

section \<open>Values as the rules read them\<close>

definition field :: "frontmatter \<Rightarrow> string \<Rightarrow> jsvalue option" where
  \<comment> \<open>\<^verbatim>\<open>frontmatter.name\<close> for the names the rules read; \<open>None\<close> is \<^verbatim>\<open>undefined\<close>.
      None of these names is inherited from a prototype the object can have.\<close>
  "field fm name = map_of fm name"

fun truthy :: "jsvalue option \<Rightarrow> bool" where
  "truthy None = False"
| "truthy (Some (Str s)) = (s \<noteq> [])"
| "truthy (Some (Arr es)) = True"

fun to_string :: "jsvalue option \<Rightarrow> string" where
  \<comment> \<open>the conversion to a string of a template literal and of \<^verbatim>\<open>Date.parse\<close> and
      \<^verbatim>\<open>new URL\<close>: an array prints its elements joined by commas\<close>
  "to_string None = ''undefined''"
| "to_string (Some (Str s)) = s"
| "to_string (Some (Arr es)) = join_with '','' es"

fun isArray :: "jsvalue option \<Rightarrow> bool" where
  "isArray (Some (Arr es)) = True"
| "isArray _ = False"

fun array_length :: "jsvalue option \<Rightarrow> nat" where
  \<comment> \<open>\<^verbatim>\<open>.length\<close>, read by the rules only behind the guards that make it an array\<close>
  "array_length (Some (Arr es)) = length es"
| "array_length (Some (Str s)) = length s"
| "array_length None = 0"

definition quoted :: "string \<Rightarrow> string" where
  \<comment> \<open>a text between single quotes, as the messages print a field name or a date\<close>
  "quoted s = CHR 0x27 # s @ [CHR 0x27]"

section \<open>Findings, the platform and the rules\<close>

record findings =
  errors :: "string list"
  warnings :: "string list"

definition no_findings :: findings where
  "no_findings = \<lparr>errors = [], warnings = []\<rparr>"

definition push_error :: "string \<Rightarrow> findings \<Rightarrow> findings" where
  \<comment> \<open>\<^verbatim>\<open>errors.push(m)\<close>\<close>
  "push_error m st = st\<lparr>errors := errors st @ [m]\<rparr>"

definition push_warning :: "string \<Rightarrow> findings \<Rightarrow> findings" where
  \<comment> \<open>\<^verbatim>\<open>warnings.push(m)\<close>\<close>
  "push_warning m st = st\<lparr>warnings := warnings st @ [m]\<rparr>"

definition error_if :: "bool \<Rightarrow> string \<Rightarrow> findings \<Rightarrow> findings" where
  \<comment> \<open>\<^verbatim>\<open>if (c) { errors.push(m) }\<close>\<close>
  "error_if c m st = (if c then push_error m st else st)"

definition warning_if :: "bool \<Rightarrow> string \<Rightarrow> findings \<Rightarrow> findings" where
  \<comment> \<open>\<^verbatim>\<open>if (c) { warnings.push(m) }\<close>\<close>
  "warning_if c m st = (if c then push_warning m st else st)"

text \<open>
  A call either returns or throws; the script catches no exception outside
  \<^verbatim>\<open>isValidUrl\<close>, so a throw ends the run. Both carry the two arrays as they are then.
\<close>

datatype run = Returned findings | Threw findings

text \<open>
  What the script reads from outside: the listing of each content directory (\<open>None\<close> when
  the directory does not exist) with the text of each file (\<open>None\<close> when reading it
  throws), the two directory paths it prints, and three functions of the platform:
  whether the path joined from the script's parent directory and an image name exists,
  whether \<^verbatim>\<open>new URL(s)\<close> returns, and whether \<^verbatim>\<open>Date.parse(s)\<close> is a number. A content
  path that exists and is not a directory is not modelled. What the script prints is left
  out: the model keeps the two arrays and the exit status.
\<close>

record world =
  blog_entries :: "(string \<times> string option) list option"
  project_entries :: "(string \<times> string option) list option"
  BLOG_DIR :: string
  PROJECTS_DIR :: string
  path_exists :: "string \<Rightarrow> bool"
  url_parses :: "string \<Rightarrow> bool"
  date_parses :: "string \<Rightarrow> bool"

definition isValidUrl :: "world \<Rightarrow> jsvalue option \<Rightarrow> bool" where
  \<comment> \<open>\<^verbatim>\<open>try { new URL(string); return true } catch (_) { return false }\<close>\<close>
  "isValidUrl w v = (if url_parses w (to_string v) then True else False)"

definition check_image :: "world \<Rightarrow> string \<Rightarrow> jsvalue option \<Rightarrow> findings \<Rightarrow> findings option" where
  \<comment> \<open>the body of \<^verbatim>\<open>if (frontmatter.image) { ... }\<close>, the same in both rule sets.
      \<^verbatim>\<open>path.join\<close> throws a TypeError for an argument that is not a string: \<open>None\<close>.\<close>
  "check_image w filename img st =
     (case img of
        Some (Str p) \<Rightarrow>
          Some (warning_if (\<not> path_exists w p) (filename @ '': Image not found: '' @ p) st)
      | _ \<Rightarrow> None)"

definition validateBlogPost :: "world \<Rightarrow> string \<Rightarrow> string \<Rightarrow> findings \<Rightarrow> run" where
  "validateBlogPost w filename text st0 =
     (case parseFrontmatter text of
        (None, content) \<Rightarrow>
          Returned (push_error (filename @ '': Missing or invalid frontmatter'') st0)
      | (Some fm, content) \<Rightarrow>
          (let st1 = error_if (\<not> truthy (field fm ''title''))
                       (filename @ '': Missing required field '' @ quoted ''title'') st0;
               st2 = error_if (\<not> truthy (field fm ''date''))
                       (filename @ '': Missing required field '' @ quoted ''date'') st1;
               st3 = warning_if (\<not> truthy (field fm ''excerpt''))
                       (filename @ '': Missing '' @ quoted ''excerpt'' @ '' field (recommended)'') st2;
               st4 = error_if (truthy (field fm ''date'')
                                 \<and> \<not> date_parses w (to_string (field fm ''date'')))
                       (filename @ '': Invalid date format ''
                          @ quoted (to_string (field fm ''date''))) st3
           in case (if truthy (field fm ''image'')
                    then check_image w filename (field fm ''image'') st4
                    else Some st4) of
                None \<Rightarrow> Threw st4
              | Some st5 \<Rightarrow>
                  (let st6 = warning_if (length (trim content) < 100)
                               (filename @ '': Content is very short (''
                                  @ decimal (length (trim content)) @ '' characters)'') st5;
                       st7 = warning_if (truthy (field fm ''tags'') \<and> isArray (field fm ''tags'')
                                           \<and> array_length (field fm ''tags'') = 0)
                               (filename @ '': Tags array is empty'') st6
                   in Returned st7)))"

definition validateProject :: "world \<Rightarrow> string \<Rightarrow> string \<Rightarrow> findings \<Rightarrow> run" where
  "validateProject w filename text st0 =
     (case parseFrontmatter text of
        (None, content) \<Rightarrow>
          Returned (push_error (filename @ '': Missing or invalid frontmatter'') st0)
      | (Some fm, content) \<Rightarrow>
          (let st1 = error_if (\<not> truthy (field fm ''title''))
                       (filename @ '': Missing required field '' @ quoted ''title'') st0;
               st2 = error_if (\<not> truthy (field fm ''description''))
                       (filename @ '': Missing required field '' @ quoted ''description'') st1;
               st3 = warning_if (\<not> truthy (field fm ''technologies'')
                                   \<or> \<not> isArray (field fm ''technologies'')
                                   \<or> array_length (field fm ''technologies'') = 0)
                       (filename @ '': No technologies listed'') st2
           in case (if truthy (field fm ''image'')
                    then check_image w filename (field fm ''image'') st3
                    else Some (push_warning (filename @ '': No featured image specified'') st3)) of
                None \<Rightarrow> Threw st3
              | Some st4 \<Rightarrow>
                  (let st5 = warning_if (\<not> truthy (field fm ''demo_url'')
                                           \<and> \<not> truthy (field fm ''github_url''))
                               (filename @ '': No demo or GitHub URL provided'') st4;
                       st6 = error_if (truthy (field fm ''demo_url'')
                                         \<and> \<not> isValidUrl w (field fm ''demo_url''))
                               (filename @ '': Invalid demo_url: ''
                                  @ to_string (field fm ''demo_url'')) st5;
                       st7 = error_if (truthy (field fm ''github_url'')
                                         \<and> \<not> isValidUrl w (field fm ''github_url''))
                               (filename @ '': Invalid github_url: ''
                                  @ to_string (field fm ''github_url'')) st6;
                       st8 = warning_if (length (trim content) < 200)
                               (filename @ '': Project details are very short (''
                                  @ decimal (length (trim content)) @ '' characters)'') st7
                   in Returned st8)))"

section \<open>The run\<close>

fun forEach_file ::
  "(string \<Rightarrow> string \<Rightarrow> findings \<Rightarrow> run) \<Rightarrow> string \<Rightarrow> (string \<times> string option) list
     \<Rightarrow> findings \<Rightarrow> run" where
  \<comment> \<open>\<^verbatim>\<open>files.forEach(file => validate(path.join(DIR, file), `dir/${file}`))\<close>; the first
      call that throws ends the loop\<close>
  "forEach_file validate dir [] st = Returned st"
| "forEach_file validate dir ((file, None) # rest) st = Threw st"
| "forEach_file validate dir ((file, Some text) # rest) st =
     (case validate (dir @ file) text st of
        Threw st' \<Rightarrow> Threw st'
      | Returned st' \<Rightarrow> forEach_file validate dir rest st')"

definition md_files :: "(string \<times> string option) list \<Rightarrow> (string \<times> string option) list" where
  \<comment> \<open>\<^verbatim>\<open>fs.readdirSync(DIR).filter(f => f.endsWith('.md'))\<close>\<close>
  "md_files entries = filter (\<lambda>(f, text). suffix ''.md'' f) entries"

definition validateBlogPosts :: "world \<Rightarrow> findings \<Rightarrow> run" where
  "validateBlogPosts w st =
     (case blog_entries w of
        None \<Rightarrow> Returned (push_error (''Blog directory not found: '' @ BLOG_DIR w) st)
      | Some entries \<Rightarrow>
          (if md_files entries = [] then Returned (push_warning ''No blog posts found'' st)
           else forEach_file (validateBlogPost w) ''blog/'' (md_files entries) st))"

definition validateProjects :: "world \<Rightarrow> findings \<Rightarrow> run" where
  "validateProjects w st =
     (case project_entries w of
        None \<Rightarrow> Returned (push_error (''Projects directory not found: '' @ PROJECTS_DIR w) st)
      | Some entries \<Rightarrow>
          (if md_files entries = [] then Returned (push_warning ''No projects found'' st)
           else forEach_file (validateProject w) ''projects/'' (md_files entries) st))"

definition main :: "world \<Rightarrow> run" where
  \<comment> \<open>the two arrays when \<^verbatim>\<open>main\<close> reaches line 248, or at the throw that ended it\<close>
  "main w =
     (case validateBlogPosts w no_findings of
        Threw st \<Rightarrow> Threw st
      | Returned st \<Rightarrow> validateProjects w st)"

fun recorded :: "run \<Rightarrow> findings" where
  "recorded (Returned st) = st"
| "recorded (Threw st) = st"

fun threw :: "run \<Rightarrow> bool" where
  "threw (Returned st) = False"
| "threw (Threw st) = True"

fun exit_code :: "run \<Rightarrow> nat" where
  \<comment> \<open>lines 248 to 250: \<^verbatim>\<open>process.exit(1)\<close> when there are errors, else the script ends and
      the status is 0; an uncaught exception ends the process with status 1\<close>
  "exit_code (Returned st) = (if length (errors st) > 0 then 1 else 0)"
| "exit_code (Threw st) = 1"

section \<open>Writing a mapping back as header lines\<close>

text \<open>
  The script only reads frontmatter; it has no function that writes one. The round trip of
  the specification needs the way back, so the definitions of this section are modelled
  from the specification and not from the code: one line \<^verbatim>\<open>key: value\<close> for each field, in
  the order of the object, a list written as \<^verbatim>\<open>[a, b, c]\<close>, and the lines put between the two
  delimiter lines that the pattern of line 36 reads. The specification leaves the quote
  style open, so the writer of values is a parameter, and there are two of them.
\<close>

definition spec_serialize :: "(jsvalue \<Rightarrow> string) \<Rightarrow> frontmatter \<Rightarrow> string" where
  \<comment> \<open>Modelled from the spec: the header lines of a mapping, joined by newlines. The
      script has no serializer.\<close>
  "spec_serialize write fm =
     join_with [nl] (map (\<lambda>kv. fst kv @ '': '' @ write (snd kv)) fm)"

definition spec_document :: "(jsvalue \<Rightarrow> string) \<Rightarrow> frontmatter \<Rightarrow> string \<Rightarrow> string" where
  \<comment> \<open>Modelled from the spec: the text of a file with the written header and a body.\<close>
  "spec_document write fm body = delim_open @ spec_serialize write fm @ delim_close @ body"

definition spec_write_plain :: "jsvalue \<Rightarrow> string" where
  \<comment> \<open>Modelled from the spec: every string written as it is.\<close>
  "spec_write_plain v =
     (case v of Str s \<Rightarrow> s | Arr es \<Rightarrow> ''['' @ join_with '', '' es @ '']'')"

definition double_quoted :: "string \<Rightarrow> string" where
  "double_quoted s = CHR 0x22 # s @ [CHR 0x22]"

definition spec_write_quoted :: "jsvalue \<Rightarrow> string" where
  \<comment> \<open>Modelled from the spec: every string written between double quotes.\<close>
  "spec_write_quoted v =
     (case v of
        Str s \<Rightarrow> double_quoted s
      | Arr es \<Rightarrow> ''['' @ join_with '', '' (map double_quoted es) @ '']'')"

text \<open>
  A string is plain when trimming and quote stripping leave it as it is: it has no white
  space and no quote character at either end. A frontmatter is plain when its strings and
  the elements of its lists are.
\<close>

definition plain :: "string \<Rightarrow> bool" where
  "plain s = (trim s = s \<and> strip_quotes s = s)"

fun plain_value :: "jsvalue \<Rightarrow> bool" where
  "plain_value (Str s) = plain s"
| "plain_value (Arr es) = list_all plain es"

definition plain_values :: "frontmatter \<Rightarrow> bool" where
  "plain_values fm = list_all (\<lambda>kv. plain_value (snd kv)) fm"

text \<open>What every parsed frontmatter satisfies; used in the proof of the round trip.\<close>

definition wf_key :: "string \<Rightarrow> bool" where
  "wf_key k = (CHR '':'' \<notin> set k \<and> nl \<notin> set k \<and> trim k = k \<and> k \<noteq> ''__proto__'')"

fun wf_value :: "jsvalue \<Rightarrow> bool" where
  "wf_value (Str s) = (nl \<notin> set s \<and> \<not> (prefix ''['' s \<and> suffix '']'' s))"
| "wf_value (Arr es) = (es \<noteq> [] \<and> list_all (\<lambda>e. nl \<notin> set e \<and> CHR '','' \<notin> set e) es)"

definition wf_frontmatter :: "frontmatter \<Rightarrow> bool" where
  "wf_frontmatter fm =
     (distinct (map fst fm) \<and> list_all (\<lambda>kv. wf_key (fst kv) \<and> wf_value (snd kv)) fm)"

section \<open>An example site\<close>

definition example_site :: world where
  \<comment> \<open>two empty content directories, no image file on disk, and stand-ins for the
      platform: URLs are the strings that start with \<^verbatim>\<open>https://\<close>, every date parses\<close>
  "example_site =
     \<lparr>blog_entries = Some [], project_entries = Some [],
      BLOG_DIR = ''content/blog'', PROJECTS_DIR = ''content/projects'',
      path_exists = (\<lambda>p. False),
      url_parses = (\<lambda>s. prefix ''https://'' s),
      date_parses = (\<lambda>s. True)\<rparr>"

definition document :: "string list \<Rightarrow> string \<Rightarrow> string" where
  \<comment> \<open>the text of a file with the given header lines and body\<close>
  "document header_lines body =
     ''---'' @ [nl] @ join_with [nl] header_lines @ [nl] @ ''---'' @ [nl] @ body"

section \<open>The pattern of the header\<close>

lemma length_delim_close: "length delim_close = 5"
  by (simp add: delim_close_def)

lemma find_close_Some:
  "find_close s = Some (h, b) \<Longrightarrow> s = h @ delim_close @ b"
proof (induction s arbitrary: h b)
  case Nil
  then show ?case by simp
next
  case (Cons c cs)
  show ?case
  proof (cases "prefix delim_close (c # cs)")
    case True
    with Cons.prems have "h = []" and "b = drop (length delim_close) (c # cs)" by auto
    moreover from True obtain r where "c # cs = delim_close @ r" by (auto simp: prefix_def)
    ultimately show ?thesis by simp
  next
    case False
    with Cons.prems obtain h' where "find_close cs = Some (h', b)" and "h = c # h'"
      by (auto split: if_splits)
    with Cons.IH show ?thesis by simp
  qed
qed

lemma find_close_None:
  "find_close s = None \<longleftrightarrow> \<not> (\<exists>h b. s = h @ delim_close @ b)"
proof (induction s)
  case Nil
  then show ?case by (simp add: delim_close_def)
next
  case (Cons c cs)
  show ?case
  proof (cases "prefix delim_close (c # cs)")
    case True
    then obtain r where "c # cs = [] @ delim_close @ r" by (auto simp: prefix_def)
    then have "\<exists>h b. c # cs = h @ delim_close @ b" by blast
    with True show ?thesis by simp
  next
    case False
    have "(\<exists>h b. c # cs = h @ delim_close @ b) \<longleftrightarrow> (\<exists>h b. cs = h @ delim_close @ b)"
    proof
      assume "\<exists>h b. c # cs = h @ delim_close @ b"
      then obtain h b where hb: "c # cs = h @ delim_close @ b" by blast
      show "\<exists>h b. cs = h @ delim_close @ b"
      proof (cases h)
        case Nil
        with hb have "prefix delim_close (c # cs)" by (simp add: prefix_def)
        with False show ?thesis by simp
      next
        case (Cons x h')
        with hb have "cs = h' @ delim_close @ b" by simp
        then show ?thesis by blast
      qed
    next
      assume "\<exists>h b. cs = h @ delim_close @ b"
      then obtain h b where "cs = h @ delim_close @ b" by blast
      then have "c # cs = (c # h) @ delim_close @ b" by simp
      then show "\<exists>h b. c # cs = h @ delim_close @ b" by blast
    qed
    with False Cons.IH show ?thesis by simp
  qed
qed

lemma match_frontmatter_Some:
  assumes "match_frontmatter content = Some (h, b)"
  shows "h \<noteq> [] \<and> content = delim_open @ h @ delim_close @ b"
proof -
  from assms have p: "prefix delim_open content"
    by (auto simp: match_frontmatter_def split: if_splits)
  then obtain r where r: "content = delim_open @ r" by (auto simp: prefix_def)
  then have d: "drop (length delim_open) content = r" by simp
  from assms p d obtain c cs h' where "r = c # cs" "find_close cs = Some (h', b)" "h = c # h'"
    by (auto simp: match_frontmatter_def split: list.splits)
  with find_close_Some r show ?thesis by fastforce
qed

lemma match_frontmatter_None:
  "match_frontmatter content = None \<longleftrightarrow>
     \<not> (\<exists>h b. h \<noteq> [] \<and> content = delim_open @ h @ delim_close @ b)"
proof (cases "prefix delim_open content")
  case False
  then have "\<not> (\<exists>h b. h \<noteq> [] \<and> content = delim_open @ h @ delim_close @ b)"
    by (auto simp: prefix_def)
  with False show ?thesis by (simp add: match_frontmatter_def)
next
  case True
  then obtain r where r: "content = delim_open @ r" by (auto simp: prefix_def)
  show ?thesis
  proof (cases r)
    case Nil
    with r True show ?thesis by (simp add: match_frontmatter_def delim_close_def)
  next
    case (Cons c cs)
    have "(\<exists>h b. h \<noteq> [] \<and> content = delim_open @ h @ delim_close @ b)
            \<longleftrightarrow> (\<exists>h' b. cs = h' @ delim_close @ b)"
    proof
      assume "\<exists>h b. h \<noteq> [] \<and> content = delim_open @ h @ delim_close @ b"
      then obtain h b where "h \<noteq> []" "c # cs = h @ delim_close @ b" using r Cons by auto
      then obtain h' where "cs = h' @ delim_close @ b" by (cases h) auto
      then show "\<exists>h' b. cs = h' @ delim_close @ b" by blast
    next
      assume "\<exists>h' b. cs = h' @ delim_close @ b"
      then obtain h' b where "cs = h' @ delim_close @ b" by blast
      then have "c # h' \<noteq> [] \<and> content = delim_open @ (c # h') @ delim_close @ b"
        using r Cons by simp
      then show "\<exists>h b. h \<noteq> [] \<and> content = delim_open @ h @ delim_close @ b" by blast
    qed
    moreover have "match_frontmatter content = None \<longleftrightarrow> find_close cs = None"
      using r Cons by (simp add: match_frontmatter_def)
    ultimately show ?thesis using find_close_None by simp
  qed
qed

text \<open>
  C1. A text that is not of the form \<^verbatim>\<open>---\n\<close>, a header of at least one character,
  \<^verbatim>\<open>\n---\n\<close>, a body (the pattern of line 36) is returned as it is: the fields are null and
  the body is the input, character for character.
\<close>

theorem parse_without_header:
  assumes "\<not> (\<exists>header body. header \<noteq> [] \<and> content = delim_open @ header @ delim_close @ body)"
  shows "parseFrontmatter content = (None, content)"
proof -
  from assms have "match_frontmatter content = None"
    by (simp only: match_frontmatter_None not_False_eq_True)
  then show ?thesis by (simp add: parseFrontmatter_def)
qed

theorem parse_without_header_witness:
  "parseFrontmatter (''---'' @ [nl] @ ''title: x'' @ [nl] @ ''no closing line'')
     = (None, ''---'' @ [nl] @ ''title: x'' @ [nl] @ ''no closing line'')"
proof -
  let ?c = "''---'' @ [nl] @ ''title: x'' @ [nl] @ ''no closing line''"
  have "match_frontmatter ?c = None"
    by (simp add: match_frontmatter_def delim_open_def delim_close_def nl_def)
  then have "\<not> (\<exists>header body. header \<noteq> [] \<and> ?c = delim_open @ header @ delim_close @ body)"
    using match_frontmatter_None [of ?c] by blast
  then show ?thesis by (rule parse_without_header)
qed

section \<open>Quotes, trimming and splitting\<close>

lemma replace_quotes_inside:
  "replace_quotes False s = (if s \<noteq> [] \<and> is_quote (last s) then butlast s else s)"
  by (induction s) auto

lemma strip_quotes_ends:
  "strip_quotes s =
     (let s1 = (if s \<noteq> [] \<and> is_quote (hd s) then tl s else s)
      in if s1 \<noteq> [] \<and> is_quote (last s1) then butlast s1 else s1)"
  by (cases s) (auto simp: strip_quotes_def replace_quotes_inside)

lemma slice_inner_butlast_tl: "slice_inner s = butlast (tl s)"
  by (cases s) (simp_all add: slice_inner_def butlast_conv_take)

lemma split_on_not_Nil: "split_on c s \<noteq> []"
  by (induction s) (auto split: list.splits)

lemma join_with_Cons_Cons: "join_with sep ((x # p) # ps) = x # join_with sep (p # ps)"
  by (cases ps) simp_all

lemma join_split_on: "join_with [c] (split_on c s) = s"
proof (induction s)
  case Nil
  show ?case by simp
next
  case (Cons x xs)
  obtain p ps where ps: "split_on c xs = p # ps"
    using split_on_not_Nil [of c xs] by (cases "split_on c xs") auto
  with Cons show ?case by (auto simp: join_with_Cons_Cons)
qed

lemma split_on_pieces: "p \<in> set (split_on c s) \<Longrightarrow> c \<notin> set p"
proof (induction s arbitrary: p)
  case Nil
  then show ?case by simp
next
  case (Cons x xs)
  obtain q qs where qs: "split_on c xs = q # qs"
    using split_on_not_Nil [of c xs] by (cases "split_on c xs") auto
  with Cons show ?case by (auto split: if_splits)
qed

lemma field_value_cases:
  "field_value rest =
     (if prefix ''['' (strip_quotes (trim rest)) \<and> suffix '']'' (strip_quotes (trim rest))
      then Arr (map (\<lambda>e. strip_quotes (trim e))
                  (split_on CHR '','' (butlast (tl (strip_quotes (trim rest))))))
      else Str (strip_quotes (trim rest)))"
  by (simp add: field_value_def Let_def slice_inner_butlast_tl)

lemmas eval_field =
  field_value_def strip_quotes_def trim_def is_space_def is_quote_def slice_inner_def Let_def
  suffix_to_prefix

text \<open>
  C2, as stated, fails: a value with a quote on one side only does not keep it. The text
  \<^verbatim>\<open>"hello\<close> after the colon is stored as \<^verbatim>\<open>hello\<close>.
\<close>

theorem scalar_quotes_counterexample:
  "field_value (CHR 0x22 # ''hello'') \<noteq> Str (CHR 0x22 # ''hello'')"
  by (simp add: eval_field)

text \<open>
  C2, amended. A scalar value is the trimmed text with a quote character (single or
  double) removed from its start if there is one and, independently, a quote character
  removed from the end of what is left if there is one, in one pass. So \<^verbatim>\<open>"hello"\<close>
  is stored as \<^verbatim>\<open>hello\<close>, \<^verbatim>\<open>'it''s'\<close> as \<^verbatim>\<open>it''s\<close>, a doubly quoted \<^verbatim>\<open>""a""\<close> keeps
  its inner quotes, a value quoted on one side only loses that quote, and two different
  quote characters at the two ends are both removed.
\<close>

theorem scalar_value_strips_each_end:
  "(field_value rest = Str v \<longrightarrow>
      v = (let t = trim rest;
               s1 = (if t \<noteq> [] \<and> is_quote (hd t) then tl t else t)
           in if s1 \<noteq> [] \<and> is_quote (last s1) then butlast s1 else s1))
   \<and> field_value (CHR 0x22 # ''hello'' @ [CHR 0x22]) = Str ''hello''
   \<and> field_value (CHR 0x27 # ''it'' @ [CHR 0x27, CHR 0x27] @ ''s'' @ [CHR 0x27])
        = Str (''it'' @ [CHR 0x27, CHR 0x27] @ ''s'')
   \<and> field_value ([CHR 0x22, CHR 0x22] @ ''a'' @ [CHR 0x22, CHR 0x22])
        = Str (CHR 0x22 # ''a'' @ [CHR 0x22])
   \<and> field_value (CHR 0x22 # ''hello'') = Str ''hello''
   \<and> field_value (''hello'' @ [CHR 0x27]) = Str ''hello''
   \<and> field_value (CHR 0x22 # ''hello'' @ [CHR 0x27]) = Str ''hello''"
proof -
  have "field_value rest = Str v \<longrightarrow>
      v = (let t = trim rest;
               s1 = (if t \<noteq> [] \<and> is_quote (hd t) then tl t else t)
           in if s1 \<noteq> [] \<and> is_quote (last s1) then butlast s1 else s1)"
    using strip_quotes_ends [of "trim rest"]
    by (auto simp: field_value_cases Let_def split: if_splits)
  then show ?thesis by (simp add: eval_field)
qed

theorem scalar_value_strips_each_end_witness:
  "field_value (''  '' @ [CHR 0x27] @ ''a b'' @ [CHR 0x22] @ '' '') = Str ''a b''"
proof -
  have "field_value (''  '' @ [CHR 0x27] @ ''a b'' @ [CHR 0x22] @ '' '') = Str ''a b'' \<longrightarrow>
     ''a b'' = (let t = trim (''  '' @ [CHR 0x27] @ ''a b'' @ [CHR 0x22] @ '' '');
               s1 = (if t \<noteq> [] \<and> is_quote (hd t) then tl t else t)
           in if s1 \<noteq> [] \<and> is_quote (last s1) then butlast s1 else s1)"
    using scalar_value_strips_each_end [of "''  '' @ [CHR 0x27] @ ''a b'' @ [CHR 0x22] @ '' ''" "''a b''"]
    by blast
  then show ?thesis by (simp add: eval_field)
qed

text \<open>
  C3. When the trimmed text, with its quotes stripped, starts with \<^verbatim>\<open>[\<close> and ends with
  \<^verbatim>\<open>]\<close>, the value is the list made by dropping the two brackets, splitting what is
  between them at the commas (the pieces, joined by commas, give the text back, and no
  piece holds a comma), and trimming and quote-stripping each piece. So \<^verbatim>\<open>[a, b, c]\<close>
  is the list of a, b and c in that order, and \<^verbatim>\<open>[]\<close> is the list of one empty string.
\<close>

theorem list_value_split:
  assumes "prefix ''['' (strip_quotes (trim rest))" and "suffix '']'' (strip_quotes (trim rest))"
  shows "field_value rest =
           Arr (map (\<lambda>e. strip_quotes (trim e))
                  (split_on CHR '','' (butlast (tl (strip_quotes (trim rest))))))
         \<and> join_with '','' (split_on CHR '','' s) = s
         \<and> (\<forall>p \<in> set (split_on CHR '','' s). CHR '','' \<notin> set p)
         \<and> field_value ''[a, b, c]'' = Arr [''a'', ''b'', ''c'']
         \<and> field_value ''[]'' = Arr [[]]"
proof -
  have "field_value rest =
           Arr (map (\<lambda>e. strip_quotes (trim e))
                  (split_on CHR '','' (butlast (tl (strip_quotes (trim rest))))))"
    using assms by (simp add: field_value_cases)
  moreover have "join_with '','' (split_on CHR '','' s) = s"
    by (rule join_split_on)
  moreover have "\<forall>p \<in> set (split_on CHR '','' s). CHR '','' \<notin> set p"
    using split_on_pieces by blast
  moreover have "field_value ''[a, b, c]'' = Arr [''a'', ''b'', ''c'']"
    by (simp add: eval_field)
  moreover have "field_value ''[]'' = Arr [[]]"
    by (simp add: eval_field)
  ultimately show ?thesis by blast
qed

theorem list_value_split_witness:
  "field_value ('' '' @ [CHR 0x22] @ ''[x, '' @ [CHR 0x27] @ ''y z'' @ [CHR 0x27] @ '',]'' @ [CHR 0x22])
     = Arr [''x'', ''y z'', []]"
proof -
  let ?r = "'' '' @ [CHR 0x22] @ ''[x, '' @ [CHR 0x27] @ ''y z'' @ [CHR 0x27] @ '',]'' @ [CHR 0x22]"
  have p: "prefix ''['' (strip_quotes (trim ?r))"
    by (simp add: eval_field)
  have s: "suffix '']'' (strip_quotes (trim ?r))"
    by (simp add: eval_field)
  from list_value_split [OF p s]
  have "field_value ?r =
           Arr (map (\<lambda>e. strip_quotes (trim e))
                  (split_on CHR '','' (butlast (tl (strip_quotes (trim ?r))))))"
    by blast
  then show ?thesis by (simp add: eval_field)
qed

section \<open>Header lines\<close>

lemma indexOf_None: "indexOf c s = None \<longleftrightarrow> c \<notin> set s"
  by (induction s) auto

lemma indexOf_first: "c \<notin> set k \<Longrightarrow> indexOf c (k @ c # rest) = Some (length k)"
  by (induction k) auto

lemma indexOf_Some: "indexOf c s = Some i \<Longrightarrow> \<exists>rest. s = take i s @ c # rest \<and> c \<notin> set (take i s)"
proof (induction s arbitrary: i)
  case Nil
  then show ?case by simp
next
  case (Cons x xs)
  show ?case
  proof (cases "x = c")
    case True
    with Cons.prems show ?thesis by simp
  next
    case False
    with Cons.prems obtain j where j: "indexOf c xs = Some j" "i = Suc j" by auto
    from Cons.IH [OF j(1)] obtain rest where "xs = take j xs @ c # rest" "c \<notin> set (take j xs)"
      by blast
    with False j show ?thesis by auto
  qed
qed

lemma parse_line_no_colon: "CHR '':'' \<notin> set line \<Longrightarrow> parse_line fm line = fm"
  by (simp add: parse_line_def indexOf_None [symmetric])

lemma parse_line_first_colon:
  "CHR '':'' \<notin> set k \<Longrightarrow>
     parse_line fm (k @ CHR '':'' # rest) = assign fm (trim k) (field_value rest)"
  by (simp add: parse_line_def indexOf_first)

lemma field_assign:
  "field (assign fm key v) name =
     (if name = key \<and> key \<noteq> ''__proto__'' then Some v else field fm name)"
  by (simp add: field_def assign_def update_conv')

lemma field_line_defines:
  "CHR '':'' \<notin> set k \<Longrightarrow> trim k \<noteq> ''__proto__'' \<Longrightarrow>
     field (parse_line fm (k @ CHR '':'' # rest)) (trim k) = Some (field_value rest)"
  by (simp add: parse_line_first_colon field_assign)

lemma field_line_other:
  "CHR '':'' \<notin> set k \<Longrightarrow> name \<noteq> trim k \<Longrightarrow>
     field (parse_line fm (k @ CHR '':'' # rest)) name = field fm name"
  by (simp add: parse_line_first_colon field_assign)

lemma field_line_keeps:
  assumes "\<forall>k' r. line = k' @ CHR '':'' # r \<and> CHR '':'' \<notin> set k' \<longrightarrow> trim k' \<noteq> name"
  shows "field (parse_line fm line) name = field fm name"
proof (cases "indexOf CHR '':'' line")
  case None
  then show ?thesis by (simp add: parse_line_def)
next
  case (Some i)
  from indexOf_Some [OF Some] obtain r where l: "line = take i line @ CHR '':'' # r"
    and c: "CHR '':'' \<notin> set (take i line)" by blast
  with assms have "trim (take i line) \<noteq> name" by blast
  moreover have "parse_line fm line = assign fm (trim (take i line)) (field_value r)"
    using parse_line_first_colon [OF c, of fm r] l by simp
  ultimately show ?thesis by (simp add: field_assign)
qed

lemma field_lines_keep:
  assumes "\<forall>l \<in> set ls. \<forall>k' r. l = k' @ CHR '':'' # r \<and> CHR '':'' \<notin> set k' \<longrightarrow> trim k' \<noteq> name"
  shows "field (foldl parse_line fm ls) name = field fm name"
  using assms
proof (induction ls arbitrary: fm)
  case Nil
  show ?case by simp
next
  case (Cons l ls)
  then have "field (foldl parse_line (parse_line fm l) ls) name = field (parse_line fm l) name"
    by simp
  also have "\<dots> = field fm name" using Cons.prems by (intro field_line_keeps) simp
  finally show ?case by simp
qed

lemma last_occurrence_wins:
  assumes "CHR '':'' \<notin> set k" and "trim k \<noteq> ''__proto__''"
    and "\<forall>l \<in> set later. \<forall>k' r. l = k' @ CHR '':'' # r \<and> CHR '':'' \<notin> set k' \<longrightarrow> trim k' \<noteq> trim k"
  shows "field (foldl parse_line fm (earlier @ [k @ CHR '':'' # rest] @ later)) (trim k)
           = Some (field_value rest)"
proof -
  have "field (foldl parse_line fm (earlier @ [k @ CHR '':'' # rest] @ later)) (trim k)
          = field (parse_line (foldl parse_line fm earlier) (k @ CHR '':'' # rest)) (trim k)"
    using field_lines_keep [OF assms(3)] by simp
  then show ?thesis using assms(1,2) by (simp add: field_line_defines)
qed

lemmas eval_parse =
  parseFrontmatter_def match_frontmatter_def delim_open_def delim_close_def nl_def
  parse_header_def parse_line_def assign_def field_def

text \<open>
  C4 at the header line \<^verbatim>\<open>__proto__: x\<close>. The line has a colon, its name is \<^verbatim>\<open>__proto__\<close>
  and its value is \<^verbatim>\<open>x\<close>, yet the parsed object has no such field: the assignment of
  line 54 reaches the inherited setter. For any other name the line is stored and the last
  line of a name wins (lemmas \<open>parse_line_no_colon\<close>, \<open>parse_line_first_colon\<close> and
  \<open>last_occurrence_wins\<close> above).
\<close>

theorem proto_line_stores_no_field:
  "parseFrontmatter (''---'' @ [nl] @ ''__proto__: x'' @ [nl] @ ''---'' @ [nl]) = (Some [], [])
   \<and> field (parse_header ''__proto__: x'') ''__proto__'' = None
   \<and> parseFrontmatter (''---'' @ [nl] @ ''proto: x'' @ [nl] @ ''---'' @ [nl])
        = (Some [(''proto'', Str ''x'')], [])"
  by (simp add: eval_parse eval_field)

section \<open>The rules on a parsed document\<close>

lemma findings_push [simp]:
  "errors (push_error m st) = errors st @ [m]"
  "warnings (push_error m st) = warnings st"
  "errors (push_warning m st) = errors st"
  "warnings (push_warning m st) = warnings st @ [m]"
  by (simp_all add: push_error_def push_warning_def)

lemma findings_if [simp]:
  "errors (error_if c m st) = errors st @ (if c then [m] else [])"
  "warnings (error_if c m st) = warnings st"
  "errors (warning_if c m st) = errors st"
  "warnings (warning_if c m st) = warnings st @ (if c then [m] else [])"
  by (simp_all add: error_if_def warning_if_def)

lemma validate_unparsed:
  assumes "parseFrontmatter text = (None, body)"
  shows "validateBlogPost w filename text st
           = Returned (push_error (filename @ '': Missing or invalid frontmatter'') st)"
    and "validateProject w filename text st
           = Returned (push_error (filename @ '': Missing or invalid frontmatter'') st)"
  using assms by (simp_all add: validateBlogPost_def validateProject_def)

lemma blog_errors:
  assumes "parseFrontmatter text = (Some fm, body)"
  shows "errors (recorded (validateBlogPost w filename text st)) =
           errors st
           @ (if \<not> truthy (field fm ''title'')
              then [filename @ '': Missing required field '' @ quoted ''title''] else [])
           @ (if \<not> truthy (field fm ''date'')
              then [filename @ '': Missing required field '' @ quoted ''date''] else [])
           @ (if truthy (field fm ''date'') \<and> \<not> date_parses w (to_string (field fm ''date''))
              then [filename @ '': Invalid date format '' @ quoted (to_string (field fm ''date''))]
              else [])"
proof (cases "field fm ''image''")
  case None
  then show ?thesis using assms
    by (simp add: validateBlogPost_def Let_def)
next
  case (Some v)
  then show ?thesis using assms
    by (cases v) (simp_all add: validateBlogPost_def Let_def check_image_def)
qed

lemma blog_threw:
  assumes "parseFrontmatter text = (Some fm, body)"
  shows "threw (validateBlogPost w filename text st) = isArray (field fm ''image'')"
proof (cases "field fm ''image''")
  case None
  then show ?thesis using assms
    by (simp add: validateBlogPost_def Let_def)
next
  case (Some v)
  then show ?thesis using assms
    by (cases v) (simp_all add: validateBlogPost_def Let_def check_image_def)
qed

lemma blog_warnings:
  assumes "parseFrontmatter text = (Some fm, body)" and "\<not> isArray (field fm ''image'')"
  shows "warnings (recorded (validateBlogPost w filename text st)) =
           warnings st
           @ (if \<not> truthy (field fm ''excerpt'')
              then [filename @ '': Missing '' @ quoted ''excerpt'' @ '' field (recommended)'']
              else [])
           @ (case field fm ''image'' of
                Some (Str p) \<Rightarrow>
                  if p \<noteq> [] \<and> \<not> path_exists w p
                  then [filename @ '': Image not found: '' @ p] else []
              | _ \<Rightarrow> [])
           @ (if length (trim body) < 100
              then [filename @ '': Content is very short ('' @ decimal (length (trim body))
                      @ '' characters)'']
              else [])
           @ (if truthy (field fm ''tags'') \<and> isArray (field fm ''tags'')
                   \<and> array_length (field fm ''tags'') = 0
              then [filename @ '': Tags array is empty''] else [])"
proof (cases "field fm ''image''")
  case None
  then show ?thesis using assms
    by (simp add: validateBlogPost_def Let_def)
next
  case (Some v)
  then show ?thesis using assms
    by (cases v) (simp_all add: validateBlogPost_def Let_def check_image_def)
qed

lemma project_threw:
  assumes "parseFrontmatter text = (Some fm, body)"
  shows "threw (validateProject w filename text st) = isArray (field fm ''image'')"
proof (cases "field fm ''image''")
  case None
  then show ?thesis using assms
    by (simp add: validateProject_def Let_def)
next
  case (Some v)
  then show ?thesis using assms
    by (cases v) (simp_all add: validateProject_def Let_def check_image_def)
qed

lemma project_errors:
  assumes "parseFrontmatter text = (Some fm, body)"
  shows "errors (recorded (validateProject w filename text st)) =
           errors st
           @ (if \<not> truthy (field fm ''title'')
              then [filename @ '': Missing required field '' @ quoted ''title''] else [])
           @ (if \<not> truthy (field fm ''description'')
              then [filename @ '': Missing required field '' @ quoted ''description''] else [])
           @ (if isArray (field fm ''image'') then []
              else (if truthy (field fm ''demo_url'') \<and> \<not> isValidUrl w (field fm ''demo_url'')
                    then [filename @ '': Invalid demo_url: '' @ to_string (field fm ''demo_url'')]
                    else [])
                 @ (if truthy (field fm ''github_url'') \<and> \<not> isValidUrl w (field fm ''github_url'')
                    then [filename @ '': Invalid github_url: ''
                            @ to_string (field fm ''github_url'')]
                    else []))"
proof (cases "field fm ''image''")
  case None
  then show ?thesis using assms
    by (simp add: validateProject_def Let_def)
next
  case (Some v)
  then show ?thesis using assms
    by (cases v) (simp_all add: validateProject_def Let_def check_image_def)
qed

lemma project_warnings:
  assumes "parseFrontmatter text = (Some fm, body)" and "\<not> isArray (field fm ''image'')"
  shows "warnings (recorded (validateProject w filename text st)) =
           warnings st
           @ (if \<not> truthy (field fm ''technologies'') \<or> \<not> isArray (field fm ''technologies'')
                   \<or> array_length (field fm ''technologies'') = 0
              then [filename @ '': No technologies listed''] else [])
           @ (case field fm ''image'' of
                Some (Str p) \<Rightarrow>
                  if p = [] then [filename @ '': No featured image specified'']
                  else if \<not> path_exists w p then [filename @ '': Image not found: '' @ p]
                  else []
              | _ \<Rightarrow> [filename @ '': No featured image specified''])
           @ (if \<not> truthy (field fm ''demo_url'') \<and> \<not> truthy (field fm ''github_url'')
              then [filename @ '': No demo or GitHub URL provided''] else [])
           @ (if length (trim body) < 200
              then [filename @ '': Project details are very short (''
                      @ decimal (length (trim body)) @ '' characters)'']
              else [])"
proof (cases "field fm ''image''")
  case None
  then show ?thesis using assms
    by (simp add: validateProject_def Let_def)
next
  case (Some v)
  then show ?thesis using assms
    by (cases v) (simp_all add: validateProject_def Let_def check_image_def)
qed

lemma blog_warnings_threw:
  assumes "parseFrontmatter text = (Some fm, body)" and "isArray (field fm ''image'')"
  shows "warnings (recorded (validateBlogPost w filename text st)) =
           warnings st
           @ (if \<not> truthy (field fm ''excerpt'')
              then [filename @ '': Missing '' @ quoted ''excerpt'' @ '' field (recommended)'']
              else [])"
proof (cases "field fm ''image''")
  case None
  with assms show ?thesis by simp
next
  case (Some v)
  then show ?thesis using assms
    by (cases v) (simp_all add: validateBlogPost_def Let_def check_image_def)
qed

lemma project_warnings_threw:
  assumes "parseFrontmatter text = (Some fm, body)" and "isArray (field fm ''image'')"
  shows "warnings (recorded (validateProject w filename text st)) =
           warnings st
           @ (if \<not> truthy (field fm ''technologies'') \<or> \<not> isArray (field fm ''technologies'')
                   \<or> array_length (field fm ''technologies'') = 0
              then [filename @ '': No technologies listed''] else [])"
proof (cases "field fm ''image''")
  case None
  with assms show ?thesis by simp
next
  case (Some v)
  then show ?thesis using assms
    by (cases v) (simp_all add: validateProject_def Let_def check_image_def)
qed

lemma validateBlogPost_errors_grow:
  "prefix (errors st) (errors (recorded (validateBlogPost w filename text st)))"
proof (cases "parseFrontmatter text")
  case (Pair r body)
  then show ?thesis
    by (cases r) (simp_all add: validate_unparsed blog_errors)
qed

lemma validateProject_errors_grow:
  "prefix (errors st) (errors (recorded (validateProject w filename text st)))"
proof (cases "parseFrontmatter text")
  case (Pair r body)
  then show ?thesis
    by (cases r) (simp_all add: validate_unparsed project_errors)
qed

section \<open>Errors of a run\<close>

lemma forEach_file_errors_grow:
  assumes "\<And>filename content st. prefix (errors st) (errors (recorded (validate filename content st)))"
  shows "prefix (errors st) (errors (recorded (forEach_file validate dir files st)))"
proof (induction files arbitrary: st)
  case Nil
  show ?case by simp
next
  case (Cons entry files)
  obtain f t where entry: "entry = (f, t)" by (cases entry)
  show ?case
  proof (cases t)
    case None
    with entry show ?thesis by simp
  next
    case (Some content)
    show ?thesis
    proof (cases "validate (dir @ f) content st")
      case (Returned st')
      have "prefix (errors st) (errors st')"
        using assms [of st "dir @ f" content] Returned by simp
      moreover have "prefix (errors st') (errors (recorded (forEach_file validate dir files st')))"
        by (rule Cons.IH)
      ultimately show ?thesis using entry Some Returned by (auto intro: prefix_order.trans)
    next
      case (Threw st')
      then show ?thesis using assms [of st "dir @ f" content] entry Some by simp
    qed
  qed
qed

lemma validateProjects_errors_grow:
  "prefix (errors st) (errors (recorded (validateProjects w st)))"
  using forEach_file_errors_grow [of "validateProject w", OF validateProject_errors_grow]
  by (auto simp: validateProjects_def split: option.splits)

lemma validateBlogPosts_errors_grow:
  "prefix (errors st) (errors (recorded (validateBlogPosts w st)))"
  using forEach_file_errors_grow [of "validateBlogPost w", OF validateBlogPost_errors_grow]
  by (auto simp: validateBlogPosts_def split: option.splits)

lemma exit_code_errors: "errors (recorded r) \<noteq> [] \<Longrightarrow> exit_code r = 1"
  by (cases r) auto

lemma validateBlogPosts_single:
  assumes "blog_entries w = Some entries" and "md_files entries = [(f, Some content)]"
  shows "recorded (validateBlogPosts w st) = recorded (validateBlogPost w (''blog/'' @ f) content st)"
  using assms by (simp add: validateBlogPosts_def split: run.splits)

lemma main_errors_of_blog:
  "prefix (errors (recorded (validateBlogPosts w no_findings))) (errors (recorded (main w)))"
  by (cases "validateBlogPosts w no_findings") (simp_all add: main_def validateProjects_errors_grow)

text \<open>
  C5. A blog document whose frontmatter parses, with a truthy \<^verbatim>\<open>title\<close> and no \<^verbatim>\<open>date\<close>
  (or an empty one), adds exactly one error, the message
  \<^verbatim>\<open>Missing required field 'date'\<close> after the file name, whatever the rest of the document
  is; and a run in which it is the only blog document ends with exit status 1.
\<close>

theorem blog_missing_date:
  assumes "parseFrontmatter text = (Some fm, body)"
    and "truthy (field fm ''title'')"
    and "\<not> truthy (field fm ''date'')"
  shows "errors (recorded (validateBlogPost w filename text st))
           = errors st @ [filename @ '': Missing required field '' @ quoted ''date'']
         \<and> sublist ''date'' (filename @ '': Missing required field '' @ quoted ''date'')
         \<and> (blog_entries w = Some entries \<and> md_files entries = [(f, Some text)]
              \<longrightarrow> exit_code (main w) = 1)"
proof -
  have one: "errors (recorded (validateBlogPost w name text s))
           = errors s @ [name @ '': Missing required field '' @ quoted ''date'']" for name s
    using assms by (simp add: blog_errors)
  have "filename @ '': Missing required field '' @ quoted ''date''
          = (filename @ '': Missing required field '' @ [CHR 0x27]) @ ''date'' @ [CHR 0x27]"
    by (simp add: quoted_def)
  then have sub: "sublist ''date'' (filename @ '': Missing required field '' @ quoted ''date'')"
    by (simp only: sublist_appendI)
  have "exit_code (main w) = 1"
    if "blog_entries w = Some entries" and "md_files entries = [(f, Some text)]"
  proof -
    have "errors (recorded (validateBlogPosts w no_findings)) \<noteq> []"
      using validateBlogPosts_single [OF that] one by simp
    then have "errors (recorded (main w)) \<noteq> []"
      using main_errors_of_blog [of w] by auto
    then show ?thesis by (rule exit_code_errors)
  qed
  with one sub show ?thesis by blast
qed

lemmas eval_run =
  main_def validateBlogPosts_def validateProjects_def md_files_def no_findings_def
  validateBlogPost_def validateProject_def check_image_def isValidUrl_def
  error_if_def warning_if_def push_error_def push_warning_def quoted_def

theorem blog_missing_date_witness:
  "errors (recorded (validateBlogPost
      \<lparr>blog_entries = Some [(''hello.md'', Some (''---'' @ [nl] @ ''title: Hello'' @ [nl] @ ''---'' @ [nl] @ ''Text.''))],
       project_entries = Some [], BLOG_DIR = ''content/blog'', PROJECTS_DIR = ''content/projects'',
       path_exists = (\<lambda>p. False), url_parses = (\<lambda>s. False), date_parses = (\<lambda>s. True)\<rparr>
      ''blog/hello.md'' (''---'' @ [nl] @ ''title: Hello'' @ [nl] @ ''---'' @ [nl] @ ''Text.'') no_findings))
     = [''blog/hello.md: Missing required field '' @ quoted ''date'']
   \<and> exit_code (main
      \<lparr>blog_entries = Some [(''hello.md'', Some (''---'' @ [nl] @ ''title: Hello'' @ [nl] @ ''---'' @ [nl] @ ''Text.''))],
       project_entries = Some [], BLOG_DIR = ''content/blog'', PROJECTS_DIR = ''content/projects'',
       path_exists = (\<lambda>p. False), url_parses = (\<lambda>s. False), date_parses = (\<lambda>s. True)\<rparr>) = 1"
proof -
  let ?text = "''---'' @ [nl] @ ''title: Hello'' @ [nl] @ ''---'' @ [nl] @ ''Text.''"
  let ?w = "\<lparr>blog_entries = Some [(''hello.md'', Some ?text)],
       project_entries = Some [], BLOG_DIR = ''content/blog'', PROJECTS_DIR = ''content/projects'',
       path_exists = (\<lambda>p. False), url_parses = (\<lambda>s. False), date_parses = (\<lambda>s. True)\<rparr>"
  have p: "parseFrontmatter ?text = (Some [(''title'', Str ''Hello'')], ''Text.'')"
    by (simp add: eval_parse eval_field)
  have t: "truthy (field [(''title'', Str ''Hello'')] ''title'')"
    by (simp add: field_def)
  have d: "\<not> truthy (field [(''title'', Str ''Hello'')] ''date'')"
    by (simp add: field_def)
  have b: "blog_entries ?w = Some [(''hello.md'', Some ?text)]
           \<and> md_files [(''hello.md'', Some ?text)] = [(''hello.md'', Some ?text)]"
    by (simp add: md_files_def suffix_to_prefix)
  from blog_missing_date [OF p t d, of ?w "''blog/hello.md''" no_findings
      "[(''hello.md'', Some ?text)]" "''hello.md''"] b
  show ?thesis by (simp add: no_findings_def)
qed

text \<open>
  What the two rule sets do with \<^verbatim>\<open>image\<close>, for a parsed document and from an empty record
  of findings. A project with no \<^verbatim>\<open>image\<close> gets the warning
  \<^verbatim>\<open>No featured image specified\<close> and none about a missing file; with a path that does not
  exist it gets \<^verbatim>\<open>Image not found:\<close> with that path and not the other warning; with a path
  that exists it gets no finding about images. A blog post with no \<^verbatim>\<open>image\<close>, or with a path
  that exists, gets no finding about images; with a path that does not exist it gets
  \<^verbatim>\<open>Image not found:\<close> with that path. With a list as \<^verbatim>\<open>image\<close> both throw, and no finding
  about images is recorded.
\<close>

lemma image_findings:
  assumes "parseFrontmatter text = (Some fm, body)"
  shows "(field fm ''image'' = None \<longrightarrow>
            filename @ '': No featured image specified''
              \<in> set (warnings (recorded (validateProject w filename text no_findings)))
            \<and> (\<forall>m \<in> set (warnings (recorded (validateProject w filename text no_findings))).
                  \<not> prefix (filename @ '': Image not found: '') m))
       \<and> (field fm ''image'' = Some (Str p) \<and> p \<noteq> [] \<and> \<not> path_exists w p \<longrightarrow>
            filename @ '': Image not found: '' @ p
              \<in> set (warnings (recorded (validateProject w filename text no_findings)))
            \<and> filename @ '': No featured image specified''
              \<notin> set (warnings (recorded (validateProject w filename text no_findings))))
       \<and> (field fm ''image'' = Some (Str p) \<and> p \<noteq> [] \<and> path_exists w p \<longrightarrow>
            (\<forall>m \<in> set (errors (recorded (validateProject w filename text no_findings))
                        @ warnings (recorded (validateProject w filename text no_findings))).
               \<not> prefix (filename @ '': Image not found: '') m
               \<and> m \<noteq> filename @ '': No featured image specified''))
       \<and> (field fm ''image'' = None \<or> field fm ''image'' = Some (Str []) \<longrightarrow>
            (\<forall>m \<in> set (errors (recorded (validateBlogPost w filename text no_findings))
                        @ warnings (recorded (validateBlogPost w filename text no_findings))).
               \<not> prefix (filename @ '': Image not found: '') m
               \<and> m \<noteq> filename @ '': No featured image specified''))
       \<and> (field fm ''image'' = Some (Str p) \<and> p \<noteq> [] \<and> \<not> path_exists w p \<longrightarrow>
            filename @ '': Image not found: '' @ p
              \<in> set (warnings (recorded (validateBlogPost w filename text no_findings))))
       \<and> (field fm ''image'' = Some (Str p) \<and> path_exists w p \<longrightarrow>
            (\<forall>m \<in> set (errors (recorded (validateBlogPost w filename text no_findings))
                        @ warnings (recorded (validateBlogPost w filename text no_findings))).
               \<not> prefix (filename @ '': Image not found: '') m
               \<and> m \<noteq> filename @ '': No featured image specified''))
       \<and> (isArray (field fm ''image'') \<longrightarrow>
            threw (validateProject w filename text no_findings)
            \<and> threw (validateBlogPost w filename text no_findings)
            \<and> (\<forall>m \<in> set (warnings (recorded (validateProject w filename text no_findings))
                        @ warnings (recorded (validateBlogPost w filename text no_findings))).
                  \<not> prefix (filename @ '': Image not found: '') m
                  \<and> m \<noteq> filename @ '': No featured image specified''))"
proof -
  have a: "filename @ '': No featured image specified''
              \<in> set (warnings (recorded (validateProject w filename text no_findings)))
            \<and> (\<forall>m \<in> set (warnings (recorded (validateProject w filename text no_findings))).
                  \<not> prefix (filename @ '': Image not found: '') m)"
    if "field fm ''image'' = None"
    using assms that by (auto simp: project_warnings no_findings_def)
  have b: "filename @ '': Image not found: '' @ p
              \<in> set (warnings (recorded (validateProject w filename text no_findings)))
            \<and> filename @ '': No featured image specified''
              \<notin> set (warnings (recorded (validateProject w filename text no_findings)))"
    if "field fm ''image'' = Some (Str p) \<and> p \<noteq> [] \<and> \<not> path_exists w p"
    using assms that by (simp add: project_warnings no_findings_def)
  have b': "\<forall>m \<in> set (errors (recorded (validateProject w filename text no_findings))
                        @ warnings (recorded (validateProject w filename text no_findings))).
               \<not> prefix (filename @ '': Image not found: '') m
               \<and> m \<noteq> filename @ '': No featured image specified''"
    if "field fm ''image'' = Some (Str p) \<and> p \<noteq> [] \<and> path_exists w p"
    using assms that by (auto simp: project_warnings project_errors no_findings_def quoted_def)
  have c: "\<forall>m \<in> set (errors (recorded (validateBlogPost w filename text no_findings))
                        @ warnings (recorded (validateBlogPost w filename text no_findings))).
               \<not> prefix (filename @ '': Image not found: '') m
               \<and> m \<noteq> filename @ '': No featured image specified''"
    if "field fm ''image'' = None \<or> field fm ''image'' = Some (Str [])"
    using assms that by (auto simp: blog_warnings blog_errors no_findings_def quoted_def)
  have d: "filename @ '': Image not found: '' @ p
              \<in> set (warnings (recorded (validateBlogPost w filename text no_findings)))"
    if "field fm ''image'' = Some (Str p) \<and> p \<noteq> [] \<and> \<not> path_exists w p"
    using assms that by (simp add: blog_warnings no_findings_def)
  have d': "\<forall>m \<in> set (errors (recorded (validateBlogPost w filename text no_findings))
                        @ warnings (recorded (validateBlogPost w filename text no_findings))).
               \<not> prefix (filename @ '': Image not found: '') m
               \<and> m \<noteq> filename @ '': No featured image specified''"
    if "field fm ''image'' = Some (Str p) \<and> path_exists w p"
    using assms that by (auto simp: blog_warnings blog_errors no_findings_def quoted_def)
  have e: "threw (validateProject w filename text no_findings)
            \<and> threw (validateBlogPost w filename text no_findings)
            \<and> (\<forall>m \<in> set (warnings (recorded (validateProject w filename text no_findings))
                        @ warnings (recorded (validateBlogPost w filename text no_findings))).
                  \<not> prefix (filename @ '': Image not found: '') m
                  \<and> m \<noteq> filename @ '': No featured image specified'')"
    if "isArray (field fm ''image'')"
    using assms that
    by (auto simp: project_threw blog_threw blog_warnings_threw project_warnings_threw no_findings_def)
  from a b b' c d d' e show ?thesis by blast
qed

lemmas eval_doc = document_def eval_parse eval_field

text \<open>
  C7 at a document whose \<^verbatim>\<open>image\<close> is a list, \<^verbatim>\<open>image: [a.png, b.png]\<close>. The image is present
  and no path of it exists on disk, yet the project gets no image warning: \<^verbatim>\<open>path.join\<close>
  throws on the list and validation stops there, with only the warning recorded before.
  The blog rules stop the same way. The same header with \<^verbatim>\<open>image: a.png\<close> gets the warning
  \<^verbatim>\<open>Image not found: a.png\<close>, as lemma \<open>image_findings\<close> says of every string.
\<close>

theorem list_image_stops_validation:
  "validateProject example_site ''projects/p.md''
      (document [''title: P'', ''description: D'', ''image: [a.png, b.png]''] ''Details.'')
      no_findings
     = Threw \<lparr>errors = [], warnings = [''projects/p.md: No technologies listed'']\<rparr>
   \<and> validateBlogPost example_site ''blog/p.md''
      (document [''title: P'', ''date: 2024-01-01'', ''excerpt: E'', ''image: [a.png, b.png]'']
         ''Text.'')
      no_findings
     = Threw \<lparr>errors = [], warnings = []\<rparr>
   \<and> validateProject example_site ''projects/p.md''
      (document [''title: P'', ''description: D'', ''image: a.png''] ''Details.'')
      no_findings
     = Returned \<lparr>errors = [],
          warnings = [''projects/p.md: No technologies listed'',
                      ''projects/p.md: Image not found: a.png'',
                      ''projects/p.md: No demo or GitHub URL provided'',
                      ''projects/p.md: Project details are very short (''
                        @ decimal (length ''Details.'') @ '' characters)'']\<rparr>"
  by (simp add: example_site_def eval_run eval_doc)

theorem list_image_stops_validation_witness:
  "threw (validateProject example_site ''projects/p.md''
      (document [''title: P'', ''description: D'', ''image: [a.png, b.png]''] ''Details.'')
      no_findings)
   \<and> warnings (recorded (validateProject example_site ''projects/p.md''
      (document [''title: P'', ''description: D'', ''image: [a.png, b.png]''] ''Details.'')
      no_findings)) = [''projects/p.md: No technologies listed'']
   \<and> threw (validateBlogPost example_site ''blog/p.md''
      (document [''title: P'', ''date: 2024-01-01'', ''excerpt: E'', ''image: [a.png, b.png]'']
         ''Text.'')
      no_findings)"
  using list_image_stops_validation by simp

text \<open>
  C8, as stated, fails for a run that an exception ends: when the one blog file cannot be
  read, no error has been recorded and the exit status is 1.
\<close>

theorem exit_code_counterexample:
  "\<not> (exit_code (main (example_site\<lparr>blog_entries := Some [(''post.md'', None)]\<rparr>)) = 0
        \<longleftrightarrow> errors (recorded (main (example_site\<lparr>blog_entries := Some [(''post.md'', None)]\<rparr>))) = [])"
  by (simp add: example_site_def eval_run suffix_to_prefix)

text \<open>
  C8, amended. For every run that no uncaught exception ends, the exit status is 0 exactly
  when no error was recorded, and 1 exactly when at least one was; warnings have no part in
  it. Lemma \<open>main_returns\<close> below gives a condition for such a run: every file can be read
  and no document gives a list as its \<^verbatim>\<open>image\<close>.
\<close>

theorem exit_code_of_finished_run:
  assumes "\<not> threw (main w)"
  shows "(exit_code (main w) = 0 \<longleftrightarrow> errors (recorded (main w)) = [])
         \<and> (exit_code (main w) = 1 \<longleftrightarrow> errors (recorded (main w)) \<noteq> [])"
  using assms by (cases "main w") auto

lemma validate_threw:
  "threw (validateBlogPost w filename content st)
     \<longleftrightarrow> (\<exists>fm body. parseFrontmatter content = (Some fm, body) \<and> isArray (field fm ''image''))"
  "threw (validateProject w filename content st)
     \<longleftrightarrow> (\<exists>fm body. parseFrontmatter content = (Some fm, body) \<and> isArray (field fm ''image''))"
proof -
  obtain r body where p: "parseFrontmatter content = (r, body)"
    by (cases "parseFrontmatter content")
  show "threw (validateBlogPost w filename content st)
     \<longleftrightarrow> (\<exists>fm body. parseFrontmatter content = (Some fm, body) \<and> isArray (field fm ''image''))"
    using p by (cases r) (simp_all add: validate_unparsed blog_threw)
  show "threw (validateProject w filename content st)
     \<longleftrightarrow> (\<exists>fm body. parseFrontmatter content = (Some fm, body) \<and> isArray (field fm ''image''))"
    using p by (cases r) (simp_all add: validate_unparsed project_threw)
qed

lemma forEach_file_returns:
  assumes "\<forall>(f, t) \<in> set files. \<exists>content. t = Some content
              \<and> (\<forall>st. \<not> threw (validate (dir @ f) content st))"
  shows "\<not> threw (forEach_file validate dir files st)"
  using assms
proof (induction files arbitrary: st)
  case Nil
  show ?case by simp
next
  case (Cons entry files)
  obtain f t where entry: "entry = (f, t)" by (cases entry)
  with Cons.prems obtain content where c: "t = Some content"
    and nt: "\<not> threw (validate (dir @ f) content st)"
    by auto
  from nt obtain st' where r: "validate (dir @ f) content st = Returned st'"
    by (cases "validate (dir @ f) content st") auto
  have "\<not> threw (forEach_file validate dir files st')"
    using Cons.IH Cons.prems by simp
  with entry c r show ?case by simp
qed

lemma main_returns:
  assumes "\<forall>entries. blog_entries w = Some entries \<longrightarrow>
             (\<forall>(f, t) \<in> set (md_files entries). \<exists>content. t = Some content
                \<and> \<not> (\<exists>fm body. parseFrontmatter content = (Some fm, body)
                        \<and> isArray (field fm ''image'')))"
    and "\<forall>entries. project_entries w = Some entries \<longrightarrow>
             (\<forall>(f, t) \<in> set (md_files entries). \<exists>content. t = Some content
                \<and> \<not> (\<exists>fm body. parseFrontmatter content = (Some fm, body)
                        \<and> isArray (field fm ''image'')))"
  shows "\<not> threw (main w)"
proof -
  have b: "\<not> threw (validateBlogPosts w st)" for st
  proof (cases "blog_entries w")
    case None
    then show ?thesis by (simp add: validateBlogPosts_def)
  next
    case (Some entries)
    with assms(1) have "\<forall>(f, t) \<in> set (md_files entries). \<exists>content. t = Some content
              \<and> (\<forall>st. \<not> threw (validateBlogPost w (''blog/'' @ f) content st))"
      by (simp add: validate_threw)
    then have "\<not> threw (forEach_file (validateBlogPost w) ''blog/'' (md_files entries) st)"
      by (rule forEach_file_returns)
    with Some show ?thesis by (simp add: validateBlogPosts_def)
  qed
  have p: "\<not> threw (validateProjects w st)" for st
  proof (cases "project_entries w")
    case None
    then show ?thesis by (simp add: validateProjects_def)
  next
    case (Some entries)
    with assms(2) have "\<forall>(f, t) \<in> set (md_files entries). \<exists>content. t = Some content
              \<and> (\<forall>st. \<not> threw (validateProject w (''projects/'' @ f) content st))"
      by (simp add: validate_threw)
    then have "\<not> threw (forEach_file (validateProject w) ''projects/'' (md_files entries) st)"
      by (rule forEach_file_returns)
    with Some show ?thesis by (simp add: validateProjects_def)
  qed
  show ?thesis
    using b [of no_findings] p by (cases "validateBlogPosts w no_findings") (simp_all add: main_def)
qed

theorem exit_code_of_finished_run_witness:
  "exit_code (main (example_site\<lparr>blog_entries :=
       Some [(''post.md'', Some (document [''title: T'', ''date: 2024-01-01'', ''excerpt: E'']
                                  ''Short.''))]\<rparr>)) = 0
   \<and> errors (recorded (main (example_site\<lparr>blog_entries :=
       Some [(''post.md'', Some (document [''title: T'', ''date: 2024-01-01'', ''excerpt: E'']
                                  ''Short.''))]\<rparr>))) = []
   \<and> warnings (recorded (main (example_site\<lparr>blog_entries :=
       Some [(''post.md'', Some (document [''title: T'', ''date: 2024-01-01'', ''excerpt: E'']
                                  ''Short.''))]\<rparr>))) \<noteq> []"
proof -
  let ?w = "example_site\<lparr>blog_entries :=
       Some [(''post.md'', Some (document [''title: T'', ''date: 2024-01-01'', ''excerpt: E'']
                                  ''Short.''))]\<rparr>"
  have m: "main ?w = Returned \<lparr>errors = [],
              warnings = [''blog/post.md: Content is very short ('' @ decimal (length ''Short.'') @ '' characters)'',
                          ''No projects found'']\<rparr>"
    by (simp add: example_site_def eval_run eval_doc)
  then have "\<not> threw (main ?w)" by simp
  from exit_code_of_finished_run [OF this] m show ?thesis by simp
qed

section \<open>URLs\<close>

text \<open>
  C6 at a project document with the lines \<^verbatim>\<open>image: [a.png, b.png]\<close> and
  \<^verbatim>\<open>demo_url: not-a-url\<close>. The \<^verbatim>\<open>demo_url\<close> is present and fails \<^verbatim>\<open>isValidUrl\<close>, yet no error
  is recorded: \<^verbatim>\<open>path.join\<close> throws on the list at the image rule, before the URL rules are
  reached. Without the \<^verbatim>\<open>image\<close> line the same document gets the error
  \<^verbatim>\<open>Invalid demo_url: not-a-url\<close>.
\<close>

theorem list_image_hides_invalid_url:
  "parseFrontmatter (document [''title: P'', ''description: D'', ''image: [a.png, b.png]'',
                               ''demo_url: not-a-url''] ''Details.'')
     = (Some [(''title'', Str ''P''), (''description'', Str ''D''),
              (''image'', Arr [''a.png'', ''b.png'']), (''demo_url'', Str ''not-a-url'')],
        ''Details.'')
   \<and> truthy (Some (Str ''not-a-url''))
   \<and> \<not> isValidUrl example_site (Some (Str ''not-a-url''))
   \<and> validateProject example_site ''projects/p.md''
         (document [''title: P'', ''description: D'', ''image: [a.png, b.png]'',
                    ''demo_url: not-a-url''] ''Details.'') no_findings
       = Threw \<lparr>errors = [], warnings = [''projects/p.md: No technologies listed'']\<rparr>
   \<and> errors (recorded (validateProject example_site ''projects/p.md''
         (document [''title: P'', ''description: D'', ''demo_url: not-a-url''] ''Details.'')
         no_findings))
       = [''projects/p.md: Invalid demo_url: not-a-url'']"
  by (simp add: example_site_def eval_run eval_doc)

theorem list_image_hides_invalid_url_witness:
  "threw (validateProject example_site ''projects/p.md''
         (document [''title: P'', ''description: D'', ''image: [a.png, b.png]'',
                    ''demo_url: not-a-url''] ''Details.'') no_findings)
   \<and> errors (recorded (validateProject example_site ''projects/p.md''
         (document [''title: P'', ''description: D'', ''image: [a.png, b.png]'',
                    ''demo_url: not-a-url''] ''Details.'') no_findings)) = []"
  using list_image_hides_invalid_url by simp

text \<open>
  When validation reaches the URL rules, a truthy \<^verbatim>\<open>demo_url\<close> or \<^verbatim>\<open>github_url\<close> that fails
  \<^verbatim>\<open>isValidUrl\<close> gets exactly one error, which ends with the value.
\<close>

lemma invalid_url_reported:
  assumes "parseFrontmatter text = (Some fm, body)"
    and "\<not> isArray (field fm ''image'')"
  shows "(truthy (field fm ''demo_url'') \<and> \<not> isValidUrl w (field fm ''demo_url'') \<longrightarrow>
            count_list (errors (recorded (validateProject w filename text no_findings)))
              (filename @ '': Invalid demo_url: '' @ to_string (field fm ''demo_url'')) = 1)
       \<and> (truthy (field fm ''github_url'') \<and> \<not> isValidUrl w (field fm ''github_url'') \<longrightarrow>
            count_list (errors (recorded (validateProject w filename text no_findings)))
              (filename @ '': Invalid github_url: '' @ to_string (field fm ''github_url'')) = 1)"
  using assms by (simp add: project_errors no_findings_def)

section \<open>Lists made by the parser\<close>

lemma field_value_Arr_nonempty: "field_value rest = Arr es \<Longrightarrow> es \<noteq> []"
  by (auto simp: field_value_cases split_on_not_Nil split: if_splits)

lemma parse_line_lists:
  assumes "\<forall>name es. field fm name = Some (Arr es) \<longrightarrow> es \<noteq> []"
  shows "\<forall>name es. field (parse_line fm line) name = Some (Arr es) \<longrightarrow> es \<noteq> []"
proof (cases "indexOf CHR '':'' line")
  case None
  with assms show ?thesis by (simp add: parse_line_def)
next
  case (Some i)
  then have "parse_line fm line = assign fm (trim (take i line)) (field_value (drop (i + 1) line))"
    by (simp add: parse_line_def)
  with assms show ?thesis
    by (auto simp: field_assign dest: field_value_Arr_nonempty split: if_splits)
qed

lemma parse_lines_lists:
  assumes "\<forall>name es. field fm name = Some (Arr es) \<longrightarrow> es \<noteq> []"
  shows "\<forall>name es. field (foldl parse_line fm ls) name = Some (Arr es) \<longrightarrow> es \<noteq> []"
  using assms
proof (induction ls arbitrary: fm)
  case Nil
  then show ?case by simp
next
  case (Cons l ls)
  from parse_line_lists [OF Cons.prems] have
    "\<forall>name es. field (parse_line fm l) name = Some (Arr es) \<longrightarrow> es \<noteq> []" .
  from Cons.IH [OF this] show ?case by simp
qed

lemma parse_header_lists: "field (parse_header h) name = Some (Arr es) \<Longrightarrow> es \<noteq> []"
proof -
  have "\<forall>name es. field [] name = Some (Arr es) \<longrightarrow> es \<noteq> []"
    by (simp add: field_def)
  from parse_lines_lists [OF this, of "split_on nl h"] show
    "field (parse_header h) name = Some (Arr es) \<Longrightarrow> es \<noteq> []"
    by (simp add: parse_header_def)
qed

lemma parseFrontmatter_Some:
  "parseFrontmatter text = (Some fm, body) \<Longrightarrow>
     \<exists>h. match_frontmatter text = Some (h, body) \<and> fm = parse_header h"
  by (auto simp: parseFrontmatter_def split: option.splits)

text \<open>
  C10. Every list in a parsed frontmatter has at least one element. So the condition of the
  blog rule on \<^verbatim>\<open>tags\<close> (truthy, a list, of length 0) is false on every parsed document
  and the warning \<^verbatim>\<open>Tags array is empty\<close> is never added, and the condition of the project
  rule on \<^verbatim>\<open>technologies\<close> is that of its first two disjuncts.
\<close>

theorem parsed_lists_not_empty:
  "(parseFrontmatter text = (Some fm, body) \<longrightarrow>
      (\<forall>name es. field fm name = Some (Arr es) \<longrightarrow> es \<noteq> [])
      \<and> \<not> (truthy (field fm ''tags'') \<and> isArray (field fm ''tags'')
            \<and> array_length (field fm ''tags'') = 0)
      \<and> ((\<not> truthy (field fm ''technologies'') \<or> \<not> isArray (field fm ''technologies'')
            \<or> array_length (field fm ''technologies'') = 0)
          \<longleftrightarrow> (\<not> truthy (field fm ''technologies'') \<or> \<not> isArray (field fm ''technologies''))))
   \<and> filename @ '': Tags array is empty''
        \<notin> set (warnings (recorded (validateBlogPost w filename text no_findings)))"
proof -
  have lists: "es \<noteq> []" if "parseFrontmatter text = (Some fm, body)"
    and "field fm name = Some (Arr es)" for fm body name es
    using that parseFrontmatter_Some parse_header_lists by blast
  have len: "array_length (field fm name) \<noteq> 0"
    if "parseFrontmatter text = (Some fm, body)" and "isArray (field fm name)" for fm body name
  proof -
    from that(2) obtain es where "field fm name = Some (Arr es)"
      by (cases "field fm name" rule: isArray.cases) auto
    with lists [OF that(1)] show ?thesis by simp
  qed
  have never: "filename @ '': Tags array is empty''
        \<notin> set (warnings (recorded (validateBlogPost w filename text no_findings)))"
  proof (cases "parseFrontmatter text")
    case (Pair r body)
    show ?thesis
    proof (cases r)
      case None
      with Pair show ?thesis by (simp add: validate_unparsed no_findings_def)
    next
      case (Some fm)
      with Pair have p: "parseFrontmatter text = (Some fm, body)" by simp
      show ?thesis
      proof (cases "isArray (field fm ''image'')")
        case True
        with p show ?thesis by (simp add: blog_warnings_threw no_findings_def)
      next
        case False
        with p len [OF p, of "''tags''"] show ?thesis
          by (auto simp: blog_warnings no_findings_def split: option.splits jsvalue.splits)
      qed
    qed
  qed
  from lists len never show ?thesis by blast
qed

theorem parsed_lists_not_empty_witness:
  "field [(''tags'', Arr [[]])] ''tags'' = Some (Arr [[]])
   \<and> \<not> (truthy (field [(''tags'', Arr [[]])] ''tags'') \<and> isArray (field [(''tags'', Arr [[]])] ''tags'')
         \<and> array_length (field [(''tags'', Arr [[]])] ''tags'') = 0)
   \<and> ''blog/p.md: Tags array is empty''
        \<notin> set (warnings (recorded (validateBlogPost example_site ''blog/p.md''
                   (document [''tags: []''] ''Text.'') no_findings)))"
proof -
  have p: "parseFrontmatter (document [''tags: []''] ''Text.'') = (Some [(''tags'', Arr [[]])], ''Text.'')"
    by (simp add: eval_doc)
  from parsed_lists_not_empty [of "document [''tags: []''] ''Text.''" "[(''tags'', Arr [[]])]"
      "''Text.''" "''blog/p.md''" example_site] p
  show ?thesis by (simp add: field_def)
qed

section \<open>The round trip\<close>

lemma set_trim: "set (trim s) \<subseteq> set s"
proof -
  have "set (trim s) = set (dropWhile is_space (rev (dropWhile is_space s)))"
    by (simp add: trim_def)
  also have "\<dots> \<subseteq> set (rev (dropWhile is_space s))"
    by (auto dest: set_dropWhileD)
  also have "\<dots> \<subseteq> set s"
    by (auto dest: set_dropWhileD)
  finally show ?thesis .
qed

lemma trim_id:
  assumes "s = [] \<or> (\<not> is_space (hd s) \<and> \<not> is_space (last s))"
  shows "trim s = s"
proof (cases "s = []")
  case True
  then show ?thesis by (simp add: trim_def)
next
  case False
  with assms have h: "\<not> is_space (hd s)" and l: "\<not> is_space (last s)" by auto
  from False h have "dropWhile is_space s = s"
    by (cases s) auto
  moreover from False l have "dropWhile is_space (rev s) = rev s"
    by (cases "rev s") (auto simp: hd_rev dest: arg_cong [where f = hd])
  ultimately show ?thesis by (simp add: trim_def)
qed

lemma last_dropWhile: "dropWhile P xs \<noteq> [] \<Longrightarrow> last (dropWhile P xs) = last xs"
  by (induction xs) (auto split: if_splits)

lemma trim_ends:
  assumes "trim s \<noteq> []"
  shows "\<not> is_space (hd (trim s)) \<and> \<not> is_space (last (trim s))"
proof -
  let ?u = "dropWhile is_space s"
  let ?v = "dropWhile is_space (rev ?u)"
  from assms have v: "?v \<noteq> []" by (simp add: trim_def)
  have u: "?u \<noteq> []"
  proof
    assume "?u = []"
    then have "?v = []" by (simp only: rev.simps dropWhile.simps)
    with v show False by (rule notE)
  qed
  from v have "\<not> is_space (hd ?v)" by (rule hd_dropWhile)
  then have l: "\<not> is_space (last (trim s))"
    using v by (simp add: trim_def last_rev)
  from v have "last ?v = last (rev ?u)" by (rule last_dropWhile)
  also have "\<dots> = hd ?u" using u by (simp add: last_rev)
  finally have "hd (trim s) = hd ?u" using v by (simp add: trim_def hd_rev)
  moreover from u have "\<not> is_space (hd ?u)" by (rule hd_dropWhile)
  ultimately show ?thesis using l by simp
qed

lemma trim_trim: "trim (trim s) = trim s"
  using trim_ends [of s] by (intro trim_id) auto

lemma trim_space_Cons: "is_space c \<Longrightarrow> trim (c # s) = trim s"
  by (simp add: trim_def)

lemma set_strip_quotes: "set (strip_quotes s) \<subseteq> set s"
proof -
  have a: "set (tl xs) \<subseteq> set xs" for xs :: string by (cases xs) auto
  have b: "set (butlast xs) \<subseteq> set xs" for xs :: string by (auto dest: in_set_butlastD)
  show ?thesis
    using a [of s] b [of s] b [of "tl s"]
    by (auto simp: strip_quotes_ends Let_def split: if_splits)
qed

lemma strip_quotes_id:
  "s = [] \<or> (\<not> is_quote (hd s) \<and> \<not> is_quote (last s)) \<Longrightarrow> strip_quotes s = s"
  by (auto simp: strip_quotes_ends Let_def)

lemma split_on_no_sep: "c \<notin> set s \<Longrightarrow> split_on c s = [s]"
  by (induction s) auto

lemma split_on_append:
  "c \<notin> set a \<Longrightarrow> split_on c (a @ c # r) = a # split_on c r"
  by (induction a) auto

lemma split_on_subset: "p \<in> set (split_on c s) \<Longrightarrow> set p \<subseteq> set s"
proof (induction s arbitrary: p)
  case Nil
  then show ?case by simp
next
  case (Cons x xs)
  obtain q qs where qs: "split_on c xs = q # qs"
    using split_on_not_Nil [of c xs] by (cases "split_on c xs") auto
  have q: "set q \<subseteq> set xs" using Cons.IH [of q] qs by simp
  have r: "\<forall>p \<in> set qs. set p \<subseteq> set xs" using Cons.IH qs by simp
  from Cons.prems qs q r show ?case by (auto split: if_splits)
qed

lemma set_join_with: "set (join_with sep es) \<subseteq> set sep \<union> \<Union> (set ` set es)"
  by (induction sep es rule: join_with.induct) auto

lemma field_value_wf:
  assumes "nl \<notin> set rest"
  shows "wf_value (field_value rest)"
proof -
  let ?v = "strip_quotes (trim rest)"
  have sub: "set ?v \<subseteq> set rest"
    using set_strip_quotes [of "trim rest"] set_trim [of rest] by blast
  show ?thesis
  proof (cases "prefix ''['' ?v \<and> suffix '']'' ?v")
    case False
    then have "field_value rest = Str ?v" by (simp add: field_value_cases)
    with False sub assms show ?thesis by auto
  next
    case True
    let ?ps = "split_on CHR '','' (butlast (tl ?v))"
    have inner: "set (butlast (tl ?v)) \<subseteq> set ?v"
      by (cases ?v) (auto dest: in_set_butlastD)
    have "nl \<notin> set (strip_quotes (trim p)) \<and> CHR '','' \<notin> set (strip_quotes (trim p))"
      if "p \<in> set ?ps" for p
    proof -
      have "set (strip_quotes (trim p)) \<subseteq> set p"
        using set_strip_quotes [of "trim p"] set_trim [of p] by blast
      moreover have "set p \<subseteq> set rest"
        using split_on_subset [OF that] inner sub by blast
      moreover have "CHR '','' \<notin> set p"
        using split_on_pieces [OF that] .
      ultimately show ?thesis using assms by blast
    qed
    moreover have "?ps \<noteq> []" by (rule split_on_not_Nil)
    moreover from True have "field_value rest = Arr (map (\<lambda>e. strip_quotes (trim e)) ?ps)"
      by (simp add: field_value_cases)
    ultimately show ?thesis by (simp add: list_all_iff)
  qed
qed

lemma set_update_subset: "set (AList.update k v al) \<subseteq> insert (k, v) (set al)"
  by (induction al) auto

lemma assign_wf:
  assumes "wf_frontmatter fm"
    and "CHR '':'' \<notin> set key" and "nl \<notin> set key" and "trim key = key"
    and "wf_value v"
  shows "wf_frontmatter (assign fm key v)"
proof (cases "key = ''__proto__''")
  case True
  with assms(1) show ?thesis by (simp add: assign_def)
next
  case False
  with assms have k: "wf_key key" by (simp add: wf_key_def)
  have "distinct (map fst (AList.update key v fm))"
    using assms(1) by (simp add: wf_frontmatter_def distinct_update)
  moreover have "\<forall>kv \<in> set (AList.update key v fm). wf_key (fst kv) \<and> wf_value (snd kv)"
    using set_update_subset [of key v fm] assms(1) assms(5) k
    by (auto simp: wf_frontmatter_def list_all_iff)
  ultimately show ?thesis using False by (simp add: assign_def wf_frontmatter_def list_all_iff)
qed

lemma parse_line_wf:
  assumes "wf_frontmatter fm" and "nl \<notin> set line"
  shows "wf_frontmatter (parse_line fm line)"
proof (cases "indexOf CHR '':'' line")
  case None
  with assms show ?thesis by (simp add: parse_line_def)
next
  case (Some i)
  from indexOf_Some [OF Some] have c: "CHR '':'' \<notin> set (take i line)" by blast
  let ?key = "trim (take i line)"
  have "set ?key \<subseteq> set (take i line)" by (rule set_trim)
  moreover have "set (take i line) \<subseteq> set line" by (rule set_take_subset)
  ultimately have k: "CHR '':'' \<notin> set ?key" "nl \<notin> set ?key" using c assms(2) by auto
  have "set (drop (i + 1) line) \<subseteq> set line" by (rule set_drop_subset)
  with assms(2) have "nl \<notin> set (drop (i + 1) line)" by auto
  then have "wf_value (field_value (drop (i + 1) line))" by (rule field_value_wf)
  from assign_wf [OF assms(1) k trim_trim this] Some show ?thesis
    by (simp add: parse_line_def)
qed

lemma parse_lines_wf:
  assumes "wf_frontmatter fm" and "\<forall>l \<in> set ls. nl \<notin> set l"
  shows "wf_frontmatter (foldl parse_line fm ls)"
  using assms
proof (induction ls arbitrary: fm)
  case Nil
  then show ?case by simp
next
  case (Cons l ls)
  then have "wf_frontmatter (parse_line fm l)" by (simp add: parse_line_wf)
  with Cons show ?case by simp
qed

lemma parse_header_wf: "wf_frontmatter (parse_header h)"
proof -
  have "wf_frontmatter []" by (simp add: wf_frontmatter_def)
  moreover have "\<forall>l \<in> set (split_on nl h). nl \<notin> set l"
    using split_on_pieces by blast
  ultimately show ?thesis unfolding parse_header_def by (rule parse_lines_wf)
qed

lemma split_join_comma_space:
  assumes "es \<noteq> []" and "\<forall>e \<in> set es. CHR '','' \<notin> set e"
  shows "split_on CHR '','' (join_with '', '' es) = hd es # map ((#) CHR '' '') (tl es)"
  using assms
proof (induction "'', ''" es rule: join_with.induct)
  case 1
  then show ?case by simp
next
  case (2 x)
  then show ?case by (simp add: split_on_no_sep)
next
  case (3 x y ys)
  then have "split_on CHR '','' (join_with '', '' (y # ys)) = y # map ((#) CHR '' '') ys"
    by simp
  moreover have "split_on CHR '','' (x @ CHR '','' # CHR '' '' # join_with '', '' (y # ys))
          = x # split_on CHR '','' (CHR '' '' # join_with '', '' (y # ys))"
    using "3.prems" by (intro split_on_append) simp
  ultimately show ?case by simp
qed

lemma split_join_lines:
  assumes "ls \<noteq> []" and "\<forall>l \<in> set ls. c \<notin> set l"
  shows "split_on c (join_with [c] ls) = ls"
  using assms
proof (induction "[c]" ls rule: join_with.induct)
  case 1
  then show ?case by simp
next
  case (2 x)
  then show ?case by (simp add: split_on_no_sep)
next
  case (3 x y ys)
  then have "split_on c (join_with [c] (y # ys)) = y # ys" by simp
  moreover have "split_on c (x @ c # join_with [c] (y # ys)) = x # split_on c (join_with [c] (y # ys))"
    using "3.prems" by (intro split_on_append) simp
  ultimately show ?case by simp
qed

text \<open>
  A list between brackets, its elements written by \<open>f\<close> and separated by a comma and a
  space, is read back element by element.
\<close>

lemma field_value_bracketed:
  assumes "es \<noteq> []"
    and "\<forall>e \<in> set es. CHR '','' \<notin> set (f e)"
    and "\<forall>e \<in> set es. strip_quotes (trim (f e)) = e \<and> strip_quotes (trim (CHR '' '' # f e)) = e"
  shows "field_value (CHR '' '' # ''['' @ join_with '', '' (map f es) @ '']'') = Arr es"
proof -
  let ?j = "join_with '', '' (map f es)"
  let ?b = "CHR ''['' # ?j @ '']''"
  have t: "trim (CHR '' '' # ?b) = ?b"
  proof -
    have "trim (CHR '' '' # ?b) = trim ?b" by (simp add: trim_space_Cons is_space_def)
    also have "\<dots> = ?b" by (rule trim_id) (simp add: is_space_def)
    finally show ?thesis .
  qed
  have s: "strip_quotes ?b = ?b" by (rule strip_quotes_id) (simp add: is_quote_def)
  have br: "prefix ''['' ?b \<and> suffix '']'' ?b" by (simp add: suffix_def)
  have inner: "butlast (tl ?b) = ?j" by (simp add: butlast_append)
  have "map (\<lambda>e. strip_quotes (trim e)) (split_on CHR '','' ?j) = es"
  proof (cases es)
    case Nil
    with assms(1) show ?thesis by simp
  next
    case (Cons x xs)
    with assms(3) have x: "strip_quotes (trim (f x)) = x"
      and xs: "\<forall>e \<in> set xs. strip_quotes (trim (CHR '' '' # f e)) = e"
      by simp_all
    from xs have "map (\<lambda>e. strip_quotes (trim (CHR '' '' # f e))) xs = xs"
      by (intro map_idI) simp
    moreover have "split_on CHR '','' ?j = hd (map f es) # map ((#) CHR '' '') (tl (map f es))"
      using assms(1,2) by (intro split_join_comma_space) simp_all
    ultimately show ?thesis using x Cons by (simp add: comp_def)
  qed
  with t s br inner show ?thesis
    by (simp add: field_value_cases del: butlast.simps)
qed

lemma plain_after_space:
  assumes "plain e"
  shows "strip_quotes (trim e) = e" and "strip_quotes (trim (CHR '' '' # e)) = e"
  using assms by (simp_all add: plain_def trim_space_Cons is_space_def)

lemma double_quoted_read:
  "strip_quotes (trim (double_quoted e)) = e"
  "strip_quotes (trim (CHR '' '' # double_quoted e)) = e"
proof -
  have t: "trim (double_quoted e) = double_quoted e"
    by (rule trim_id) (simp add: double_quoted_def is_space_def)
  have s: "strip_quotes (double_quoted e) = e"
    by (simp add: strip_quotes_ends double_quoted_def is_quote_def)
  from t s show "strip_quotes (trim (double_quoted e)) = e" by simp
  from t s show "strip_quotes (trim (CHR '' '' # double_quoted e)) = e"
    by (simp add: trim_space_Cons is_space_def)
qed

lemma field_value_written_plain:
  assumes "wf_value v" and "plain_value v"
  shows "field_value (CHR '' '' # spec_write_plain v) = v"
proof (cases v)
  case (Str s)
  with assms have "strip_quotes (trim (CHR '' '' # s)) = s" and "\<not> (prefix ''['' s \<and> suffix '']'' s)"
    by (simp_all add: plain_after_space)
  with Str show ?thesis by (simp add: field_value_cases spec_write_plain_def)
next
  case (Arr es)
  with assms have "es \<noteq> []" and "\<forall>e \<in> set es. CHR '','' \<notin> set e"
    and "\<forall>e \<in> set es. strip_quotes (trim e) = e \<and> strip_quotes (trim (CHR '' '' # e)) = e"
    by (simp_all add: list_all_iff plain_after_space)
  then have "field_value (CHR '' '' # ''['' @ join_with '', '' (map (\<lambda>e. e) es) @ '']'') = Arr es"
    by (rule field_value_bracketed)
  with Arr show ?thesis by (simp add: spec_write_plain_def)
qed

lemma field_value_written_quoted:
  assumes "wf_value v"
  shows "field_value (CHR '' '' # spec_write_quoted v) = v"
proof (cases v)
  case (Str s)
  with assms have "\<not> (prefix ''['' s \<and> suffix '']'' s)" by simp
  with Str show ?thesis
    by (simp add: field_value_cases spec_write_quoted_def double_quoted_read)
next
  case (Arr es)
  with assms have "es \<noteq> []" and "\<forall>e \<in> set es. CHR '','' \<notin> set (double_quoted e)"
    by (simp_all add: list_all_iff double_quoted_def)
  moreover have "\<forall>e \<in> set es. strip_quotes (trim (double_quoted e)) = e
                   \<and> strip_quotes (trim (CHR '' '' # double_quoted e)) = e"
    by (simp add: double_quoted_read)
  ultimately have "field_value (CHR '' '' # ''['' @ join_with '', '' (map double_quoted es) @ '']'')
                     = Arr es"
    by (rule field_value_bracketed)
  with Arr show ?thesis by (simp add: spec_write_quoted_def)
qed

lemma written_no_nl:
  assumes "wf_value v"
  shows "nl \<notin> set (spec_write_plain v)" and "nl \<notin> set (spec_write_quoted v)"
proof -
  show "nl \<notin> set (spec_write_plain v)"
  proof (cases v)
    case (Str s)
    with assms show ?thesis by (simp add: spec_write_plain_def)
  next
    case (Arr es)
    with assms have "\<forall>e \<in> set es. nl \<notin> set e" by (simp add: list_all_iff)
    then have "nl \<notin> set (join_with '', '' es)"
      using set_join_with [of "'', ''" es] by (auto simp: nl_def)
    with Arr show ?thesis by (simp add: spec_write_plain_def nl_def)
  qed
  show "nl \<notin> set (spec_write_quoted v)"
  proof (cases v)
    case (Str s)
    with assms show ?thesis by (simp add: spec_write_quoted_def double_quoted_def nl_def)
  next
    case (Arr es)
    with assms have "\<forall>e \<in> set es. nl \<notin> set (double_quoted e)"
      by (simp add: list_all_iff double_quoted_def nl_def)
    then have "nl \<notin> set (join_with '', '' (map double_quoted es))"
      using set_join_with [of "'', ''" "map double_quoted es"] by (auto simp: nl_def)
    with Arr show ?thesis by (simp add: spec_write_quoted_def nl_def)
  qed
qed

lemma update_fresh: "k \<notin> fst ` set al \<Longrightarrow> AList.update k v al = al @ [(k, v)]"
  by (induction al) auto

lemma parse_line_written:
  assumes "wf_key k" and "field_value (CHR '' '' # write v) = v" and "k \<notin> fst ` set acc"
  shows "parse_line acc (k @ '': '' @ write v) = acc @ [(k, v)]"
proof -
  from assms(1) have c: "CHR '':'' \<notin> set k" and t: "trim k = k" and p: "k \<noteq> ''__proto__''"
    by (simp_all add: wf_key_def)
  have "parse_line acc (k @ CHR '':'' # (CHR '' '' # write v))
               = assign acc (trim k) (field_value (CHR '' '' # write v))"
    by (rule parse_line_first_colon [OF c])
  with t p assms(2) update_fresh [OF assms(3)] show ?thesis by (simp add: assign_def)
qed

lemma parse_lines_written:
  assumes "wf_frontmatter fm"
    and "\<forall>kv \<in> set fm. field_value (CHR '' '' # write (snd kv)) = snd kv"
    and "fst ` set acc \<inter> fst ` set fm = {}"
  shows "foldl parse_line acc (map (\<lambda>kv. fst kv @ '': '' @ write (snd kv)) fm) = acc @ fm"
  using assms
proof (induction fm arbitrary: acc)
  case Nil
  then show ?case by simp
next
  case (Cons kv fm)
  obtain k v where kv: "kv = (k, v)" by (cases kv)
  from Cons.prems kv have wk: "wf_key k" and rv: "field_value (CHR '' '' # write v) = v"
    and fresh: "k \<notin> fst ` set acc" and later: "k \<notin> fst ` set fm"
    and wf: "wf_frontmatter fm"
    and rest: "\<forall>kv \<in> set fm. field_value (CHR '' '' # write (snd kv)) = snd kv"
    by (auto simp: wf_frontmatter_def)
  have step: "parse_line acc (k @ '': '' @ write v) = acc @ [(k, v)]"
    using wk rv fresh by (rule parse_line_written)
  have "fst ` set (acc @ [(k, v)]) \<inter> fst ` set fm = {}"
    using Cons.prems(3) kv later by auto
  from Cons.IH [OF wf rest this] step kv show ?case by simp
qed

lemma parse_header_written:
  assumes "wf_frontmatter fm"
    and "\<forall>kv \<in> set fm. field_value (CHR '' '' # write (snd kv)) = snd kv"
    and "\<forall>kv \<in> set fm. nl \<notin> set (write (snd kv))"
  shows "parse_header (spec_serialize write fm) = fm"
proof (cases "fm = []")
  case True
  then show ?thesis by (simp add: parse_header_def spec_serialize_def parse_line_def)
next
  case False
  let ?ls = "map (\<lambda>kv. fst kv @ '': '' @ write (snd kv)) fm"
  have "\<forall>l \<in> set ?ls. nl \<notin> set l"
    using assms(1,3) by (auto simp: wf_frontmatter_def list_all_iff wf_key_def nl_def)
  moreover from False have "?ls \<noteq> []" by simp
  ultimately have "split_on nl (join_with [nl] ?ls) = ?ls" by (intro split_join_lines)
  then have "parse_header (spec_serialize write fm) = foldl parse_line [] ?ls"
    by (simp add: parse_header_def spec_serialize_def)
  also have "\<dots> = [] @ fm" using assms(1,2) by (intro parse_lines_written) simp_all
  finally show ?thesis by simp
qed

lemma first_separator:
  "xs @ a # r = ys @ a # s \<Longrightarrow> a \<notin> set xs \<Longrightarrow> a \<notin> set ys \<Longrightarrow> xs = ys"
proof (induction xs arbitrary: ys)
  case Nil
  then show ?case by (cases ys) auto
next
  case (Cons x xs)
  then show ?case by (cases ys) auto
qed

lemma find_close_skip:
  "nl \<notin> set l \<Longrightarrow> find_close (l @ r) = map_option (\<lambda>(h, b). (l @ h, b)) (find_close r)"
proof (induction l)
  case Nil
  show ?case by (cases "find_close r") auto
next
  case (Cons c l)
  then have "\<not> prefix delim_close (c # l @ r)" by (auto simp: delim_close_def)
  with Cons show ?case by (cases "find_close r") auto
qed

lemma find_close_line:
  assumes "nl \<notin> set l" and "l \<noteq> ''---''"
  shows "find_close (nl # l @ nl # r) = map_option (\<lambda>(h, b). (nl # l @ h, b)) (find_close (nl # r))"
proof -
  have "\<not> prefix delim_close (nl # l @ nl # r)"
  proof
    assume "prefix delim_close (nl # l @ nl # r)"
    then obtain s where "nl # l @ nl # r = delim_close @ s" by (auto simp: prefix_def)
    then have e: "l @ nl # r = ''---'' @ nl # s" by (simp add: delim_close_def)
    have d: "nl \<notin> set ''---''" by (simp add: nl_def)
    from e assms(1) d have "l = ''---''" by (rule first_separator)
    with assms(2) show False by simp
  qed
  then have "find_close (nl # l @ nl # r)
               = map_option (\<lambda>(h, b). (nl # h, b)) (find_close (l @ nl # r))"
    by simp
  also have "\<dots> = map_option (\<lambda>(h, b). (nl # l @ h, b)) (find_close (nl # r))"
    using find_close_skip [OF assms(1), of "nl # r"]
    by (cases "find_close (nl # r)") auto
  finally show ?thesis .
qed

lemma find_close_lines:
  assumes "\<forall>l \<in> set ls. nl \<notin> set l \<and> l \<noteq> ''---''"
  shows "find_close (concat (map ((#) nl) ls) @ delim_close @ b)
           = Some (concat (map ((#) nl) ls), b)"
  using assms
proof (induction ls)
  case Nil
  show ?case by (simp add: delim_close_def)
next
  case (Cons l ls)
  obtain r where r: "concat (map ((#) nl) ls) @ delim_close @ b = nl # r"
    by (cases ls) (auto simp: delim_close_def)
  from Cons.prems have l: "nl \<notin> set l" "l \<noteq> ''---''" by simp_all
  have "find_close (concat (map ((#) nl) (l # ls)) @ delim_close @ b)
          = find_close (nl # l @ nl # r)"
    using r by simp
  also have "\<dots> = map_option (\<lambda>(h, b). (nl # l @ h, b)) (find_close (nl # r))"
    using l by (rule find_close_line)
  also have "find_close (nl # r) = Some (concat (map ((#) nl) ls), b)"
    using Cons r by simp
  finally show ?case by simp
qed

lemma join_with_concat: "join_with [nl] (l # ls) = l @ concat (map ((#) nl) ls)"
  by (induction ls arbitrary: l) auto

lemma match_frontmatter_lines:
  assumes "ls \<noteq> []" and "\<forall>l \<in> set ls. nl \<notin> set l \<and> CHR '':'' \<in> set l"
  shows "match_frontmatter (delim_open @ join_with [nl] ls @ delim_close @ b)
           = Some (join_with [nl] ls, b)"
proof -
  from assms(1) obtain l ls' where ls: "ls = l # ls'" by (cases ls) auto
  with assms(2) have "CHR '':'' \<in> set l" and n: "nl \<notin> set l" by simp_all
  then obtain c l' where l: "l = c # l'" by (cases l) auto
  with n have n': "nl \<notin> set l'" by simp
  have rest: "\<forall>l \<in> set ls'. nl \<notin> set l \<and> l \<noteq> ''---''"
    using assms(2) ls by auto
  have "find_close (l' @ concat (map ((#) nl) ls') @ delim_close @ b)
          = Some (l' @ concat (map ((#) nl) ls'), b)"
    using find_close_skip [OF n'] find_close_lines [OF rest] by simp
  then show ?thesis
    by (simp add: match_frontmatter_def ls l join_with_concat)
qed

lemma parseFrontmatter_written:
  assumes "wf_frontmatter fm" and "fm \<noteq> []"
    and "\<forall>kv \<in> set fm. field_value (CHR '' '' # write (snd kv)) = snd kv"
    and "\<forall>kv \<in> set fm. nl \<notin> set (write (snd kv))"
  shows "parseFrontmatter (spec_document write fm body) = (Some fm, body)"
proof -
  let ?ls = "map (\<lambda>kv. fst kv @ '': '' @ write (snd kv)) fm"
  have "\<forall>l \<in> set ?ls. nl \<notin> set l \<and> CHR '':'' \<in> set l"
    using assms(1,4) by (auto simp: wf_frontmatter_def list_all_iff wf_key_def nl_def)
  moreover from assms(2) have "?ls \<noteq> []" by simp
  ultimately have "match_frontmatter (delim_open @ join_with [nl] ?ls @ delim_close @ body)
                     = Some (join_with [nl] ?ls, body)"
    by (intro match_frontmatter_lines)
  then have "parseFrontmatter (spec_document write fm body)
               = (Some (parse_header (spec_serialize write fm)), body)"
    by (simp add: parseFrontmatter_def spec_document_def spec_serialize_def)
  with parse_header_written [OF assms(1,3,4)] show ?thesis by simp
qed

text \<open>
  C9, as stated, fails for a header that stores no field. The header \<^verbatim>\<open>draft\<close> is valid and
  parses to the empty mapping; the empty mapping is written back as no line at all,
  whatever the quote style; and the file with that empty header does not match the pattern
  of line 36, so it parses to null and not to the empty mapping.
\<close>

theorem round_trip_counterexample:
  "parseFrontmatter (document [''draft''] ''Text.'') = (Some [], ''Text.'')
   \<and> spec_document spec_write_quoted [] ''Text.'' = document [] ''Text.''
   \<and> spec_document spec_write_plain [] ''Text.'' = document [] ''Text.''
   \<and> parseFrontmatter (document [] ''Text.'') = (None, document [] ''Text.'')"
  by (simp add: eval_doc spec_document_def spec_serialize_def)

text \<open>
  C9, amended. For every document whose frontmatter parses to a mapping with at least one
  field, writing the mapping back as \<^verbatim>\<open>key: value\<close> lines with every string between double
  quotes, and parsing the file with that header, gives the same mapping, field for field
  and in the same order, and the body that was written.
\<close>

theorem round_trip:
  assumes "parseFrontmatter content = (Some fm, body)" and "fm \<noteq> []"
  shows "parseFrontmatter (spec_document spec_write_quoted fm body) = (Some fm, body)"
proof -
  from assms(1) obtain h where "fm = parse_header h"
    using parseFrontmatter_Some by blast
  then have wf: "wf_frontmatter fm" by (simp add: parse_header_wf)
  then have v: "\<forall>kv \<in> set fm. wf_value (snd kv)"
    by (simp add: wf_frontmatter_def list_all_iff)
  show ?thesis
    using wf assms(2) v
    by (intro parseFrontmatter_written) (simp_all add: field_value_written_quoted written_no_nl)
qed

text \<open>
  Written back without quotes, the values come back when they are plain; a value that
  kept a quote at an end is stripped again.
\<close>

lemma round_trip_plain:
  assumes "parseFrontmatter content = (Some fm, body)" and "fm \<noteq> []" and "plain_values fm"
  shows "parseFrontmatter (spec_document spec_write_plain fm body) = (Some fm, body)"
proof -
  from assms(1) obtain h where "fm = parse_header h"
    using parseFrontmatter_Some by blast
  then have wf: "wf_frontmatter fm" by (simp add: parse_header_wf)
  then have v: "\<forall>kv \<in> set fm. wf_value (snd kv)"
    by (simp add: wf_frontmatter_def list_all_iff)
  show ?thesis
    using wf assms(2,3) v
    by (intro parseFrontmatter_written)
      (simp_all add: field_value_written_plain written_no_nl plain_values_def list_all_iff)
qed

lemma plain_writer_strips_again:
  "parseFrontmatter (document [''k: '' @ [CHR 0x22, CHR 0x22] @ ''a'' @ [CHR 0x22, CHR 0x22]] [])
     = (Some [(''k'', Str (CHR 0x22 # ''a'' @ [CHR 0x22]))], [])
   \<and> parseFrontmatter (spec_document spec_write_plain
        [(''k'', Str (CHR 0x22 # ''a'' @ [CHR 0x22]))] [])
     = (Some [(''k'', Str ''a'')], [])"
  by (simp add: eval_doc spec_document_def spec_serialize_def spec_write_plain_def)

theorem round_trip_witness:
  "parseFrontmatter (spec_document spec_write_quoted
      [(''title'', Str ''Bye''), (''k'', Str (CHR 0x22 # ''a'' @ [CHR 0x22])),
       (''tags'', Arr [''a'', ''b c''])] ''Text.'')
   = (Some [(''title'', Str ''Bye''), (''k'', Str (CHR 0x22 # ''a'' @ [CHR 0x22])),
            (''tags'', Arr [''a'', ''b c''])], ''Text.'')"
proof -
  let ?c = "document [''title: '' @ [CHR 0x22] @ ''Hello: world'' @ [CHR 0x22],
                      ''k: '' @ [CHR 0x22, CHR 0x22] @ ''a'' @ [CHR 0x22, CHR 0x22],
                      ''tags: [a, '' @ [CHR 0x27] @ ''b c'' @ [CHR 0x27] @ '']'',
                      ''not a field'', ''title: Bye''] ''Text.''"
  let ?fm = "[(''title'', Str ''Bye''), (''k'', Str (CHR 0x22 # ''a'' @ [CHR 0x22])),
              (''tags'', Arr [''a'', ''b c''])]"
  have p: "parseFrontmatter ?c = (Some ?fm, ''Text.'')"
    by (simp add: eval_doc)
  have n: "?fm \<noteq> []" by simp
  from round_trip [OF p n] show ?thesis .
qed

end
